theory Spec2Isabelle
  imports Complex_Main "HOL-Library.Log_Nat" "HOL-Library.Word" "HOL-Library.Multiset"
begin

section \<open>JavaScript values used by script.js\<close>

subsection \<open>Numbers: IEEE 754 binary64\<close>

text \<open>
  Every JavaScript number is a double.  A finite double is kept as the rational it denotes
  (\<open>Num 0\<close> is \<open>+0\<close>); the four special values are constructors of their own.  Arithmetic
  computes the exact rational result and rounds it to the nearest double, ties to even.
\<close>

datatype number = NaN | PosInf | NegInf | NegZero | Num rat

definition ilog2 :: "rat \<Rightarrow> int" where
  \<comment> \<open>\<open>\<lfloor>log\<^sub>2 a\<rfloor>\<close> for \<open>0 < a\<close>\<close>
  "ilog2 a = (if 1 \<le> a then bitlen \<lfloor>a\<rfloor> - 1 else - bitlen (\<lceil>1 / a\<rceil> - 1))"

definition round_half_even :: "rat \<Rightarrow> int" where
  "round_half_even x =
     (let f = \<lfloor>x\<rfloor>; r = x - of_int f
      in if r < 1 / 2 then f else if 1 / 2 < r then f + 1 else if even f then f else f + 1)"

definition round_double :: "rat \<Rightarrow> number" where
  \<comment> \<open>53 significant bits, exponents from -1022 (below that the spacing stays \<open>2\<^sup>-\<^sup>1\<^sup>0\<^sup>7\<^sup>4\<close>),
      overflow to an infinity, underflow to a signed zero\<close>
  "round_double q =
     (if q = 0 then Num 0
      else let a = \<bar>q\<bar>;
               e = max (ilog2 a) (- 1022);
               u = 2 powi (e - 52);
               n = round_half_even (a / u);
               r = of_int n * u
           in if 2 powi 1024 \<le> r then (if q < 0 then NegInf else PosInf)
              else if n = 0 then (if q < 0 then NegZero else Num 0)
              else Num (if q < 0 then - r else r))"

fun js_neg :: "number \<Rightarrow> number" where
  "js_neg NaN = NaN"
| "js_neg PosInf = NegInf"
| "js_neg NegInf = PosInf"
| "js_neg NegZero = Num 0"
| "js_neg (Num q) = (if q = 0 then NegZero else Num (- q))"

fun js_add :: "number \<Rightarrow> number \<Rightarrow> number" where
  "js_add NaN _ = NaN"
| "js_add _ NaN = NaN"
| "js_add PosInf NegInf = NaN"
| "js_add NegInf PosInf = NaN"
| "js_add PosInf _ = PosInf"
| "js_add _ PosInf = PosInf"
| "js_add NegInf _ = NegInf"
| "js_add _ NegInf = NegInf"
| "js_add NegZero y = y"
| "js_add x NegZero = x"
| "js_add (Num a) (Num b) = round_double (a + b)"

definition js_sub :: "number \<Rightarrow> number \<Rightarrow> number" where
  "js_sub x y = js_add x (js_neg y)"

fun finite_value :: "number \<Rightarrow> rat" where
  "finite_value (Num q) = q"
| "finite_value _ = 0"

fun js_lt :: "number \<Rightarrow> number \<Rightarrow> bool" where
  \<comment> \<open>\<open>x < y\<close>; false as soon as one side is NaN\<close>
  "js_lt NaN _ = False"
| "js_lt _ NaN = False"
| "js_lt PosInf _ = False"
| "js_lt _ PosInf = True"
| "js_lt _ NegInf = False"
| "js_lt NegInf _ = True"
| "js_lt x y = (finite_value x < finite_value y)"

fun strict_eq :: "number \<Rightarrow> number \<Rightarrow> bool" where
  \<comment> \<open>\<open>x === y\<close> on numbers: NaN equals nothing, the two zeros are equal\<close>
  "strict_eq NaN _ = False"
| "strict_eq _ NaN = False"
| "strict_eq PosInf y = (y = PosInf)"
| "strict_eq NegInf y = (y = NegInf)"
| "strict_eq x PosInf = False"
| "strict_eq x NegInf = False"
| "strict_eq x y = (finite_value x = finite_value y)"

definition js_gt :: "number \<Rightarrow> number \<Rightarrow> bool" where
  "js_gt x y = js_lt y x"

definition js_le :: "number \<Rightarrow> number \<Rightarrow> bool" where
  "js_le x y = (js_lt x y \<or> strict_eq x y)"

fun Math_max :: "number list \<Rightarrow> number" where
  \<comment> \<open>\<open>Math.max(...xs)\<close>: \<open>-\<infinity>\<close> without arguments, NaN if one argument is NaN, \<open>+0\<close> above \<open>-0\<close>\<close>
  "Math_max [] = NegInf"
| "Math_max (x # xs) =
     (let m = Math_max xs
      in if x = NaN \<or> m = NaN then NaN
         else if js_lt m x then x
         else if js_lt x m then m
         else if x = NegZero then m else x)"

subsection \<open>Strings: sequences of UTF-16 code units\<close>

type_synonym code_unit = "16 word"
type_synonym jsstring = "code_unit list"

definition js :: "string \<Rightarrow> jsstring" where
  \<comment> \<open>a string literal of the source\<close>
  "js s = map (\<lambda>c. of_nat (of_char c)) s"

definition isWhiteSpace :: "code_unit \<Rightarrow> bool" where
  \<comment> \<open>WhiteSpace and LineTerminator of ECMAScript, what \<open>trim\<close> and the numeric parsers strip\<close>
  "isWhiteSpace c \<longleftrightarrow>
     c = 0x9 \<or> c = 0xA \<or> c = 0xB \<or> c = 0xC \<or> c = 0xD \<or> c = 0x20 \<or> c = 0xA0 \<or> c = 0x1680 \<or>
     (0x2000 \<le> c \<and> c \<le> 0x200A) \<or> c = 0x2028 \<or> c = 0x2029 \<or> c = 0x202F \<or> c = 0x205F \<or>
     c = 0x3000 \<or> c = 0xFEFF"

definition trim :: "jsstring \<Rightarrow> jsstring" where
  "trim s = rev (dropWhile isWhiteSpace (rev (dropWhile isWhiteSpace s)))"

definition isDigit :: "code_unit \<Rightarrow> bool" where
  "isDigit c \<longleftrightarrow> 0x30 \<le> c \<and> c \<le> 0x39"

definition digitValue :: "code_unit \<Rightarrow> nat" where
  \<comment> \<open>the value of a digit or letter in a radix up to 36; 36 for any other code unit\<close>
  "digitValue c =
     (if 0x30 \<le> c \<and> c \<le> 0x39 then unat c - 48
      else if 0x61 \<le> c \<and> c \<le> 0x7A then unat c - 87
      else if 0x41 \<le> c \<and> c \<le> 0x5A then unat c - 55
      else 36)"

definition digitsValue :: "nat \<Rightarrow> jsstring \<Rightarrow> nat" where
  "digitsValue radix ds = foldl (\<lambda>n c. radix * n + digitValue c) 0 ds"

definition scanSign :: "jsstring \<Rightarrow> bool \<times> jsstring" where
  \<comment> \<open>an optional \<open>+\<close> or \<open>-\<close>; True for minus\<close>
  "scanSign s =
     (case s of [] \<Rightarrow> (False, s)
      | c # r \<Rightarrow> if c = 0x2D then (True, r) else if c = 0x2B then (False, r) else (False, s))"

definition scanExponent :: "jsstring \<Rightarrow> int \<times> jsstring" where
  \<comment> \<open>ExponentPart, if one is there: \<open>e\<close> or \<open>E\<close>, a sign, at least one digit\<close>
  "scanExponent s =
     (case s of [] \<Rightarrow> (0, s)
      | c # r \<Rightarrow>
          if c = 0x65 \<or> c = 0x45 then
            (let (neg, r1) = scanSign r; ds = takeWhile isDigit r1
             in if ds = [] then (0, s)
                else (if neg then - int (digitsValue 10 ds) else int (digitsValue 10 ds),
                      dropWhile isDigit r1))
          else (0, s))"

definition scanUnsignedDecimal :: "jsstring \<Rightarrow> (rat \<times> jsstring) option" where
  \<comment> \<open>the longest prefix that is digits, an optional fraction and an optional exponent,
      with its mathematical value and the rest of the string\<close>
  "scanUnsignedDecimal s =
     (let ip = takeWhile isDigit s; r1 = dropWhile isDigit s;
          (fp, r2) = (case r1 of [] \<Rightarrow> ([], r1)
                      | c # r \<Rightarrow> if c = 0x2E then (takeWhile isDigit r, dropWhile isDigit r)
                                 else ([], r1))
      in if ip = [] \<and> fp = [] then None
         else let (ex, r3) = scanExponent r2
              in Some (of_nat (digitsValue 10 (ip @ fp)) * 10 powi (ex - int (length fp)), r3))"

definition scanStrDecimalLiteral :: "jsstring \<Rightarrow> (number \<times> jsstring) option" where
  \<comment> \<open>the longest prefix that is a StrDecimalLiteral, as a number: its mathematical value
      rounded to the nearest double\<close>
  "scanStrDecimalLiteral s =
     (let (neg, r) = scanSign s
      in if take 8 r = js ''Infinity'' then Some (if neg then NegInf else PosInf, drop 8 r)
         else case scanUnsignedDecimal r of
                None \<Rightarrow> None
              | Some (q, r') \<Rightarrow>
                  Some (if q = 0 then (if neg then NegZero else Num 0)
                        else round_double (if neg then - q else q), r'))"

definition radixLiteral :: "jsstring \<Rightarrow> number" where
  \<comment> \<open>NonDecimalIntegerLiteral: \<open>0x\<close>, \<open>0o\<close> or \<open>0b\<close> (either case) and at least one digit\<close>
  "radixLiteral s =
     (case s of
        z # p # ds \<Rightarrow>
          (let radix = (if p = 0x78 \<or> p = 0x58 then 16 else if p = 0x6F \<or> p = 0x4F then 8
                        else if p = 0x62 \<or> p = 0x42 then 2 else 0)
           in if z = 0x30 \<and> radix \<noteq> 0 \<and> ds \<noteq> [] \<and> list_all (\<lambda>c. digitValue c < radix) ds
              then round_double (of_nat (digitsValue radix ds)) else NaN)
      | _ \<Rightarrow> NaN)"

definition StringToNumber :: "jsstring \<Rightarrow> number" where
  \<comment> \<open>ToNumber applied to a string: the whole trimmed string must be a numeric literal,
      and the empty string is \<open>+0\<close>\<close>
  "StringToNumber s =
     (let t = trim s
      in if t = [] then Num 0
         else case scanStrDecimalLiteral t of
                Some (v, []) \<Rightarrow> v
              | _ \<Rightarrow> radixLiteral t)"

definition isNaN :: "jsstring \<Rightarrow> bool" where
  \<comment> \<open>the global \<open>isNaN\<close> on a string argument\<close>
  "isNaN s = (StringToNumber s = NaN)"

datatype jsval = JSUndefined | JSNull | JSNumber number | JSString jsstring

definition parseFloat_string :: "jsstring \<Rightarrow> number" where
  "parseFloat_string s =
     (case scanStrDecimalLiteral (dropWhile isWhiteSpace s) of
        None \<Rightarrow> NaN
      | Some (v, _) \<Rightarrow> v)"

fun parseFloat :: "jsval \<Rightarrow> number" where
  \<comment> \<open>\<open>parseFloat\<close> parses the string form of its argument.  The string of a number reads back
      as that number (\<open>-0\<close> prints as \<open>0\<close>); \<open>undefined\<close> and \<open>null\<close> print as words.\<close>
  "parseFloat (JSString s) = parseFloat_string s"
| "parseFloat (JSNumber n) = (if n = NegZero then Num 0 else n)"
| "parseFloat JSUndefined = NaN"
| "parseFloat JSNull = NaN"

subsection \<open>Dates\<close>

definition days_from_civil :: "int \<Rightarrow> int \<Rightarrow> int \<Rightarrow> int" where
  \<comment> \<open>days from 1970-01-01 to the given day of the proleptic Gregorian calendar\<close>
  "days_from_civil y m d =
     (let y' = (if m \<le> 2 then y - 1 else y);
          era = y' div 400;
          yoe = y' - era * 400;
          doy = (153 * (if 2 < m then m - 3 else m + 9) + 2) div 5 + d - 1;
          doe = yoe * 365 + yoe div 4 - yoe div 100 + doy
      in era * 146097 + doe - 719468)"

definition daysInMonth :: "int \<Rightarrow> int \<Rightarrow> int" where
  "daysInMonth y m =
     (if m = 2 then (if y mod 4 = 0 \<and> (y mod 100 \<noteq> 0 \<or> y mod 400 = 0) then 29 else 28)
      else if m = 4 \<or> m = 6 \<or> m = 9 \<or> m = 11 then 30 else 31)"

definition Date_parse :: "(jsstring \<Rightarrow> number) \<Rightarrow> jsstring \<Rightarrow> number" where
  \<comment> \<open>The time value of \<open>new Date(s)\<close>.  A valid \<open>YYYY-MM-DD\<close>, the only form a date input
      produces, is midnight UTC of that day.  Every other string is left to the parameter
      \<open>other\<close>: the remaining formats and the engine's own fallback parsing.\<close>
  "Date_parse other s =
     (if length s = 10 \<and> list_all isDigit (take 4 s) \<and> s ! 4 = 0x2D \<and>
         list_all isDigit (take 2 (drop 5 s)) \<and> s ! 7 = 0x2D \<and> list_all isDigit (drop 8 s)
      then (let y = int (digitsValue 10 (take 4 s));
                m = int (digitsValue 10 (take 2 (drop 5 s)));
                d = int (digitsValue 10 (drop 8 s))
            in if 1 \<le> m \<and> m \<le> 12 \<and> 1 \<le> d \<and> d \<le> daysInMonth y m
               then Num (of_int (days_from_civil y m d * 86400000))
               else other s)
      else other s)"

section \<open>The program: script.js\<close>

subsection \<open>class Transaction\<close>

record Transaction =
  t_id :: number
  t_amount :: number
  t_date :: jsstring
  t_category :: "jsstring option"
  t_subCategory :: jsstring
  t_description :: jsstring

text \<open>
  The category comes from \<open>document.querySelector('input[name="type"]:checked')?.value\<close> and is
  \<open>undefined\<close> (\<open>None\<close>) while no radio button is checked.  The constructor calls
  \<open>description.trim()\<close>, so it is only defined on a string description; the one caller that
  may hold something else, \<open>loadInitialData\<close>, tests for it below.
\<close>

definition new_Transaction ::
  "number \<Rightarrow> jsval \<Rightarrow> jsstring \<Rightarrow> jsstring option \<Rightarrow> jsstring \<Rightarrow> jsstring \<Rightarrow> Transaction" where
  "new_Transaction i a d c sc desc =
     \<lparr>t_id = i, t_amount = parseFloat a, t_date = d, t_category = c, t_subCategory = sc,
      t_description = trim desc\<rparr>"

subsection \<open>class MoneyManager: the store\<close>

record MoneyManager =
  transactions :: "Transaction list"
  nextId :: number

definition constructor :: MoneyManager where
  "constructor = \<lparr>transactions = [], nextId = Num 1\<rparr>"

record formData =
  f_id :: jsstring
  f_amount :: jsstring
  f_date :: jsstring
  f_category :: "jsstring option"
  f_subCategory :: jsstring
  f_description :: jsstring

definition from_form :: "number \<Rightarrow> formData \<Rightarrow> Transaction" where
  \<comment> \<open>the constructor call shared by \<open>addTransaction\<close> and \<open>updateTransaction\<close>\<close>
  "from_form i f =
     new_Transaction i (JSString (f_amount f)) (f_date f) (f_category f) (f_subCategory f)
       (f_description f)"

definition addTransaction :: "formData \<Rightarrow> MoneyManager \<Rightarrow> MoneyManager" where
  \<comment> \<open>\<open>this.nextId++\<close> hands out the old value and stores the old value plus one\<close>
  "addTransaction f s =
     \<lparr>transactions = transactions s @ [from_form (nextId s) f],
      nextId = js_add (nextId s) (Num 1)\<rparr>"

fun findIndex :: "('a \<Rightarrow> bool) \<Rightarrow> 'a list \<Rightarrow> int" where
  "findIndex p [] = - 1"
| "findIndex p (x # xs) =
     (if p x then 0 else (let i = findIndex p xs in if i = - 1 then - 1 else i + 1))"

definition updateTransaction :: "number \<Rightarrow> formData \<Rightarrow> MoneyManager \<Rightarrow> MoneyManager" where
  "updateTransaction i f s =
     (let index = findIndex (\<lambda>t. strict_eq (t_id t) i) (transactions s)
      in if - 1 < index
         then s\<lparr>transactions := (transactions s)[nat index := from_form i f]\<rparr>
         else s)"

definition deleteTransaction :: "bool \<Rightarrow> number \<Rightarrow> MoneyManager \<Rightarrow> MoneyManager" where
  \<comment> \<open>\<open>confirmed\<close> is what \<open>window.confirm\<close> returned\<close>
  "deleteTransaction confirmed i s =
     (if confirmed
      then s\<lparr>transactions := filter (\<lambda>t. \<not> strict_eq (t_id t) i) (transactions s)\<rparr>
      else s)"

subsection \<open>loadInitialData\<close>

record stored_row =
  r_id :: number
  r_amount :: jsval
  r_date :: jsstring
  r_category :: "jsstring option"
  r_subCategory :: jsstring
  r_description :: "jsstring option"

text \<open>
  What \<open>await localforage.getItem(DB_KEY)\<close> can give: a rejected promise, a falsy value (nothing
  stored), a truthy value without \<open>map\<close>, or an array of rows.  A row whose description is not a
  string (\<open>None\<close>) makes the constructor throw a TypeError inside \<open>map\<close>; like the rejected
  promise it ends in the \<open>catch\<close> block, before anything is assigned.
\<close>

datatype stored = Rejected | Falsy | NotAnArray | Rows "stored_row list"

definition rehydrate :: "stored_row \<Rightarrow> Transaction" where
  "rehydrate r =
     new_Transaction (r_id r) (r_amount r) (r_date r) (r_category r) (r_subCategory r)
       (the (r_description r))"

definition loadInitialData :: "stored \<Rightarrow> MoneyManager \<Rightarrow> MoneyManager" where
  "loadInitialData item s =
     (case item of
        Rows rows \<Rightarrow>
          if list_all (\<lambda>r. r_description r \<noteq> None) rows
          then (let ts = map rehydrate rows
                in \<lparr>transactions = ts,
                    nextId = (if 0 < length ts then js_add (Math_max (map t_id ts)) (Num 1)
                              else Num 1)\<rparr>)
          else s
      | _ \<Rightarrow> s)"

subsection \<open>renderTransactions: the rows shown\<close>

fun insert_by :: "('a \<Rightarrow> 'a \<Rightarrow> number) \<Rightarrow> 'a \<Rightarrow> 'a list \<Rightarrow> 'a list" where
  "insert_by cmp x [] = [x]"
| "insert_by cmp x (y # ys) =
     (if js_gt (cmp x y) (Num 0) then y # insert_by cmp x ys else x # y # ys)"

definition sort_by :: "('a \<Rightarrow> 'a \<Rightarrow> number) \<Rightarrow> 'a list \<Rightarrow> 'a list" where
  \<comment> \<open>\<open>Array.prototype.sort\<close> with a comparator: a stable sort (ECMAScript 2019), here by
      insertion.  An element moves behind another only when the comparator is positive; NaN
      counts as zero.  With an inconsistent comparator the language leaves the order to the
      engine, and this is one of the permitted orders.\<close>
  "sort_by cmp xs = foldr (insert_by cmp) xs []"

definition compareFn ::
  "(jsstring \<Rightarrow> number) \<Rightarrow> jsstring \<Rightarrow> Transaction \<Rightarrow> Transaction \<Rightarrow> number" where
  "compareFn other sortOption a b =
     (if sortOption = js ''date-asc''
        then js_sub (Date_parse other (t_date a)) (Date_parse other (t_date b))
      else if sortOption = js ''date-desc''
        then js_sub (Date_parse other (t_date b)) (Date_parse other (t_date a))
      else if sortOption = js ''amount-asc'' then js_sub (t_amount a) (t_amount b)
      else if sortOption = js ''amount-desc'' then js_sub (t_amount b) (t_amount a)
      else Num 0)"

definition renderTransactions ::
  "(jsstring \<Rightarrow> number) \<Rightarrow> jsstring \<Rightarrow> jsstring \<Rightarrow> jsstring \<Rightarrow> MoneyManager \<Rightarrow> Transaction list" where
  \<comment> \<open>\<open>filteredAndSorted\<close>, from the values of the three controls; one table row is written
      for each element, and a placeholder row when there is none\<close>
  "renderTransactions other categoryFilter dateFilter sortOption s =
     (let all_rows = transactions s;
          by_category = (if categoryFilter \<noteq> js ''all''
                         then filter (\<lambda>t. t_category t = Some categoryFilter) all_rows
                         else all_rows);
          by_date = (if dateFilter \<noteq> []
                     then filter (\<lambda>t. t_date t = dateFilter) by_category
                     else by_category)
      in sort_by (compareFn other sortOption) by_date)"

subsection \<open>updateSummary\<close>

fun reduce :: "('b \<Rightarrow> 'a \<Rightarrow> 'b) \<Rightarrow> 'b \<Rightarrow> 'a list \<Rightarrow> 'b" where
  "reduce f acc [] = acc"
| "reduce f acc (x # xs) = reduce f (f acc x) xs"

record summary =
  totalIncome :: number
  totalExpenses :: number
  netBalance :: number

definition updateSummary :: "MoneyManager \<Rightarrow> summary" where
  \<comment> \<open>the three numbers, before \<open>toFixed(2)\<close> prints them into the cards\<close>
  "updateSummary s =
     (let income = reduce (\<lambda>sum t. js_add sum (t_amount t)) (Num 0)
                     (filter (\<lambda>t. t_category t = Some (js ''income'')) (transactions s));
          expenses = reduce (\<lambda>sum t. js_add sum (t_amount t)) (Num 0)
                       (filter (\<lambda>t. t_category t = Some (js ''expense'')) (transactions s))
      in \<lparr>totalIncome = income, totalExpenses = expenses, netBalance = js_sub income expenses\<rparr>)"

subsection \<open>validateForm\<close>

record validation =
  isValid :: bool
  errors :: "(string \<times> string) list"
  invalid :: "string list"

text \<open>
  \<open>errors\<close> are the calls of \<open>showError\<close> (element id and message) and \<open>invalid\<close> the inputs
  that get the class \<open>invalid\<close>, both in the order of the source; \<open>clearFormErrors\<close> has emptied
  them before.  \<open>today\<close> is the time value of local midnight, \<open>new Date()\<close> after
  \<open>setHours(0,0,0,0)\<close>.
\<close>

definition validateForm :: "(jsstring \<Rightarrow> number) \<Rightarrow> number \<Rightarrow> formData \<Rightarrow> validation" where
  "validateForm other today f =
     (let v0 = \<lparr>isValid = True, errors = [], invalid = []\<rparr>;
          v1 = (if isNaN (f_amount f) \<or> js_le (parseFloat (JSString (f_amount f))) (Num 0)
                then \<lparr>isValid = False,
                      errors = errors v0 @ [(''amount-error'', ''Please enter a positive numeric amount.'')],
                      invalid = invalid v0 @ [''amount'']\<rparr>
                else v0);
          transactionDate = Date_parse other (f_date f);
          v2 = (if f_date f = [] \<or> js_gt transactionDate today
                then \<lparr>isValid = False,
                      errors = errors v1 @ [(''date-error'', ''Date cannot be in the future.'')],
                      invalid = invalid v1 @ [''date'']\<rparr>
                else v1);
          v3 = (if f_category f = None \<or> f_category f = Some []
                then \<lparr>isValid = False,
                      errors = errors v2 @ [(''category-error'', ''Please select a category.'')],
                      invalid = invalid v2\<rparr>
                else v2);
          v4 = (if f_subCategory f = []
                then \<lparr>isValid = False,
                      errors = errors v3 @ [(''sub-category-error'', ''Please select a sub-category.'')],
                      invalid = invalid v3 @ [''sub-category'']\<rparr>
                else v3)
      in v4)"

subsection \<open>Sequences of operations\<close>

datatype action = Add formData | Update number formData | Delete number bool

fun apply_action :: "action \<Rightarrow> MoneyManager \<Rightarrow> MoneyManager" where
  "apply_action (Add f) s = addTransaction f s"
| "apply_action (Update i f) s = updateTransaction i f s"
| "apply_action (Delete i confirmed) s = deleteTransaction confirmed i s"

fun run :: "action list \<Rightarrow> MoneyManager \<Rightarrow> MoneyManager" where
  "run [] s = s"
| "run (a # as) s = run as (apply_action a s)"

fun issued :: "action list \<Rightarrow> MoneyManager \<Rightarrow> number list" where
  \<comment> \<open>the ids handed out by the adds of a run\<close>
  "issued [] s = []"
| "issued (Add f # as) s = nextId s # issued as (addTransaction f s)"
| "issued (a # as) s = issued as (apply_action a s)"

fun seen :: "action list \<Rightarrow> MoneyManager \<Rightarrow> number list" where
  \<comment> \<open>the ids present in the collection at some point of a run, its start and end included\<close>
  "seen [] s = map t_id (transactions s)"
| "seen (a # as) s = map t_id (transactions s) @ seen as (apply_action a s)"

fun adds :: "action list \<Rightarrow> nat" where
  "adds [] = 0"
| "adds (Add f # as) = Suc (adds as)"
| "adds (a # as) = adds as"

inductive reachable :: "MoneyManager \<Rightarrow> bool" where
  start: "reachable constructor"
| load: "reachable s \<Longrightarrow> reachable (loadInitialData item s)"
| step: "reachable s \<Longrightarrow> reachable (apply_action a s)"

subsection \<open>Properties of a store\<close>

fun unique_ids :: "Transaction list \<Rightarrow> bool" where
  \<comment> \<open>no two records have \<open>===\<close> ids\<close>
  "unique_ids [] = True"
| "unique_ids (t # ts) = (list_all (\<lambda>u. \<not> strict_eq (t_id t) (t_id u)) ts \<and> unique_ids ts)"

definition ids_below :: "MoneyManager \<Rightarrow> bool" where
  \<comment> \<open>\<open>nextId\<close> exceeds every id\<close>
  "ids_below s = list_all (\<lambda>t. js_lt (t_id t) (nextId s)) (transactions s)"

definition is_count :: "number \<Rightarrow> bool" where
  \<comment> \<open>a non-negative integer\<close>
  "is_count x = (case x of Num q \<Rightarrow> 0 \<le> q \<and> of_int \<lfloor>q\<rfloor> = q | _ \<Rightarrow> False)"

definition trimmed :: "jsstring \<Rightarrow> bool" where
  \<comment> \<open>no white space at either end\<close>
  "trimmed s = (s = [] \<or> (\<not> isWhiteSpace (hd s) \<and> \<not> isWhiteSpace (last s)))"

subsection \<open>The invariant of the store\<close>

definition store_inv :: "nat \<Rightarrow> MoneyManager \<Rightarrow> bool" where
  \<comment> \<open>ids unique and below \<open>nextId\<close>, which is the integer \<open>n\<close>\<close>
  "store_inv n s \<longleftrightarrow>
     nextId s = Num (of_nat n) \<and> unique_ids (transactions s) \<and> ids_below s"

subsection \<open>Vocabulary of the claims\<close>

definition summarize :: "Transaction list \<Rightarrow> summary" where
  \<comment> \<open>\<open>summarize\<close> of the specification: \<open>updateSummary\<close> on a store holding the collection\<close>
  "summarize ts = updateSummary \<lparr>transactions = ts, nextId = Num 1\<rparr>"

definition only :: "string \<Rightarrow> Transaction list \<Rightarrow> Transaction list" where
  \<comment> \<open>the records of one category\<close>
  "only c ts = filter (\<lambda>t. t_category t = Some (js c)) ts"

definition whole :: "Transaction list \<Rightarrow> bool" where
  \<comment> \<open>every amount is a non-negative integer\<close>
  "whole ts = list_all (\<lambda>t. is_count (t_amount t)) ts"

definition exact_total :: "Transaction list \<Rightarrow> int" where
  \<comment> \<open>the mathematical sum of whole amounts\<close>
  "exact_total ts = sum_list (map (\<lambda>t. \<lfloor>finite_value (t_amount t)\<rfloor>) ts)"

fun exact_add :: "number \<Rightarrow> number \<Rightarrow> bool" where
  \<comment> \<open>both operands are finite and their sum is a double: the addition does not round\<close>
  "exact_add (Num a) (Num b) = (js_add (Num a) (Num b) = Num (a + b))"
| "exact_add _ _ = False"

fun exact_sub :: "number \<Rightarrow> number \<Rightarrow> bool" where
  \<comment> \<open>the same for a subtraction\<close>
  "exact_sub (Num a) (Num b) = (js_sub (Num a) (Num b) = Num (a - b))"
| "exact_sub _ _ = False"

fun exact_fold :: "rat \<Rightarrow> number list \<Rightarrow> bool" where
  \<comment> \<open>adding the numbers one by one to the accumulator never rounds\<close>
  "exact_fold a [] = True"
| "exact_fold a (x # xs) = (exact_add (Num a) x \<and> exact_fold (a + finite_value x) xs)"

definition no_rounding :: "Transaction list \<Rightarrow> Transaction list \<Rightarrow> bool" where
  \<comment> \<open>none of the additions and subtractions rounds that the summaries of \<open>xs @ ys\<close>, of
      \<open>xs\<close> and of \<open>ys\<close> perform, nor adding the totals of \<open>xs\<close> to those of \<open>ys\<close>
      (the additions for \<open>xs\<close> are the first ones of those for \<open>xs @ ys\<close>)\<close>
  "no_rounding xs ys \<longleftrightarrow>
     exact_fold 0 (map t_amount (only ''income'' (xs @ ys))) \<and>
     exact_fold 0 (map t_amount (only ''income'' ys)) \<and>
     exact_add (totalIncome (summarize xs)) (totalIncome (summarize ys)) \<and>
     exact_fold 0 (map t_amount (only ''expense'' (xs @ ys))) \<and>
     exact_fold 0 (map t_amount (only ''expense'' ys)) \<and>
     exact_add (totalExpenses (summarize xs)) (totalExpenses (summarize ys)) \<and>
     exact_sub (totalIncome (summarize (xs @ ys))) (totalExpenses (summarize (xs @ ys))) \<and>
     exact_sub (totalIncome (summarize xs)) (totalExpenses (summarize xs)) \<and>
     exact_sub (totalIncome (summarize ys)) (totalExpenses (summarize ys)) \<and>
     exact_add (netBalance (summarize xs)) (netBalance (summarize ys))"

definition sort_options :: "jsstring list" where
  \<comment> \<open>the sort options \<open>renderTransactions\<close> knows\<close>
  "sort_options = [js ''date-asc'', js ''date-desc'', js ''amount-asc'', js ''amount-desc'']"

definition passes :: "jsstring \<Rightarrow> jsstring \<Rightarrow> Transaction \<Rightarrow> bool" where
  \<comment> \<open>the record satisfies both filters, as far as they are active\<close>
  "passes categoryFilter dateFilter t \<longleftrightarrow>
     (categoryFilter = js ''all'' \<or> t_category t = Some categoryFilter) \<and>
     (dateFilter = [] \<or> t_date t = dateFilter)"

subsection \<open>Example inputs\<close>

definition form :: "string \<Rightarrow> string \<Rightarrow> string \<Rightarrow> string \<Rightarrow> string \<Rightarrow> formData" where
  \<comment> \<open>the form data of a new entry: amount, date, category, sub-category, description\<close>
  "form a d c sc desc =
     \<lparr>f_id = [], f_amount = js a, f_date = js d, f_category = Some (js c),
      f_subCategory = js sc, f_description = js desc\<rparr>"

definition salary :: formData where
  "salary = form ''1000'' ''2024-01-01'' ''income'' ''salary'' '' January pay ''"

definition groceries :: formData where
  "groceries = form ''200'' ''2024-01-02'' ''expense'' ''groceries'' ''''"

definition rent :: formData where
  "rent = form ''750'' ''2024-01-03'' ''expense'' ''rent'' ''''"

definition old_row :: stored_row where
  \<comment> \<open>a stored record whose id is the largest odd double, \<open>2\<^sup>5\<^sup>3 - 1\<close>\<close>
  "old_row = \<lparr>r_id = Num 9007199254740991, r_amount = JSNumber (Num 50),
     r_date = js ''2023-12-31'', r_category = Some (js ''expense''), r_subCategory = js ''other'',
     r_description = Some (js ''old'')\<rparr>"

definition stale_store :: MoneyManager where
  \<comment> \<open>the store after loading that record and adding the salary entry\<close>
  "stale_store = addTransaction salary (loadInitialData (Rows [old_row]) constructor)"

definition gift :: "rat \<Rightarrow> string \<Rightarrow> Transaction" where
  \<comment> \<open>an income record with the given id and amount\<close>
  "gift i a = from_form (Num i) (form a ''2024-01-01'' ''income'' ''gift'' '''')"

section \<open>Lemmas\<close>

subsection \<open>Rounding\<close>

lemma powi_pos: "0 < (2::rat) powi k"
  by (simp add: power_int_def)

lemma powi_mono: "j \<le> k \<Longrightarrow> (2::rat) powi j \<le> 2 powi k"
  by (rule power_int_increasing) simp_all

lemma powi_strict: "j < k \<Longrightarrow> (2::rat) powi j < 2 powi k"
  by (rule power_int_strict_increasing) simp_all

lemma ilog2_bounds:
  assumes "0 < a"
  shows "2 powi (ilog2 a) \<le> a \<and> a < 2 powi (ilog2 a + 1)"
proof (cases "1 \<le> a")
  case True
  define n where "n = \<lfloor>a\<rfloor>"
  have n1: "1 \<le> n" using True by (simp add: n_def le_floor_iff)
  then have b1: "1 \<le> bitlen n" by (simp add: bitlen_alt_def)
  have bb: "2 ^ nat (bitlen n - 1) \<le> n" "n < 2 ^ nat (bitlen n)"
    using bitlen_bounds[of n] n1 by auto
  have e: "ilog2 a = bitlen n - 1" using True by (simp add: ilog2_def n_def)
  have "(2::rat) powi (bitlen n - 1) = of_int (2 ^ nat (bitlen n - 1))"
    using b1 by (simp add: power_int_def)
  also have "\<dots> \<le> of_int n" using bb(1) by (simp only: of_int_le_iff)
  also have "\<dots> \<le> a" by (simp add: n_def)
  finally have lo: "2 powi (ilog2 a) \<le> a" by (simp add: e)
  have "a < of_int (n + 1)" using floor_correct[of a] by (simp add: n_def)
  also have "\<dots> \<le> of_int (2 ^ nat (bitlen n))" using bb(2) by (simp only: of_int_le_iff)
  also have "\<dots> = (2::rat) powi (bitlen n)" using b1 by (simp add: power_int_def)
  finally have "a < 2 powi (ilog2 a + 1)" by (simp add: e)
  with lo show ?thesis by simp
next
  case False
  define r where "r = 1 / a"
  define m where "m = \<lceil>r\<rceil> - 1"
  have r1: "1 < r" using False assms by (simp add: r_def)
  have m1: "1 \<le> m" using r1 by (simp add: m_def less_ceiling_iff)
  have mr: "of_int m < r" "r \<le> of_int (m + 1)"
    using ceiling_correct[of r] by (simp_all add: m_def)
  have b1: "1 \<le> bitlen m" using m1 by (simp add: bitlen_alt_def)
  have bb: "2 ^ nat (bitlen m - 1) \<le> m" "m < 2 ^ nat (bitlen m)"
    using bitlen_bounds[of m] m1 by auto
  have e: "ilog2 a = - bitlen m" using False by (simp add: ilog2_def m_def r_def)
  have a: "a = 1 / r" using assms by (simp add: r_def)
  have "r \<le> of_int (2 ^ nat (bitlen m))"
    using mr(2) bb(2) by (meson add1_zle_eq of_int_le_iff order_trans)
  also have "\<dots> = (2::rat) powi (bitlen m)" using b1 by (simp add: power_int_def)
  finally have "1 / (2 powi (bitlen m)) \<le> 1 / r"
    using r1 by (intro divide_left_mono) (simp_all add: powi_pos)
  then have "2 powi (- bitlen m) \<le> 1 / r"
    by (simp add: power_int_minus_divide)
  then have lo: "2 powi (ilog2 a) \<le> a"
    by (simp only: e a[symmetric])
  have "(2::rat) powi (bitlen m - 1) = of_int (2 ^ nat (bitlen m - 1))"
    using b1 by (simp add: power_int_def)
  also have "\<dots> \<le> of_int m" using bb(1) by (simp only: of_int_le_iff)
  also have "\<dots> < r" by (rule mr(1))
  finally have "1 / r < 1 / (2 powi (bitlen m - 1))"
    using r1 by (intro divide_strict_left_mono) (simp_all add: powi_pos)
  then have "1 / r < 2 powi (- (bitlen m - 1))"
    by (simp only: power_int_minus_divide)
  then have "1 / r < 2 powi (- bitlen m + 1)"
    by simp
  then have "a < 2 powi (ilog2 a + 1)"
    by (simp only: e a[symmetric])
  with lo show ?thesis by simp
qed

lemma ilog2_eqI:
  assumes "2 powi e \<le> a" "a < 2 powi (e + 1)"
  shows "ilog2 a = e"
proof -
  have pos: "0 < a" using assms(1) powi_pos[of e] by linarith
  note b = ilog2_bounds[OF pos]
  have "\<not> ilog2 a < e"
  proof
    assume "ilog2 a < e"
    then have "(2::rat) powi (ilog2 a + 1) \<le> 2 powi e" by (intro powi_mono) simp
    with b assms show False by linarith
  qed
  moreover have "\<not> e < ilog2 a"
  proof
    assume "e < ilog2 a"
    then have "(2::rat) powi (e + 1) \<le> 2 powi (ilog2 a)" by (intro powi_mono) simp
    with b assms show False by linarith
  qed
  ultimately show ?thesis by simp
qed

lemma round_half_even_of_int: "round_half_even (of_int n) = n"
  by (simp add: round_half_even_def)

lemma round_double_unfold:
  assumes "q \<noteq> 0" and "a = \<bar>q\<bar>" and "u = 2 powi (max (ilog2 a) (- 1022) - 52)"
    and "n = round_half_even (a / u)"
  shows "round_double q =
    (if 2 powi 1024 \<le> of_int n * u then (if q < 0 then NegInf else PosInf)
     else if n = 0 then (if q < 0 then NegZero else Num 0)
     else Num (if q < 0 then - (of_int n * u) else of_int n * u))"
  unfolding assms(2,3,4) round_double_def Let_def using assms(1) by (simp only: if_False)

lemma round_double_exact:
  assumes "q \<noteq> 0" and "\<bar>q\<bar> < 2 powi 1024"
    and "\<bar>q\<bar> / 2 powi (max (ilog2 \<bar>q\<bar>) (- 1022) - 52) = of_int k"
  shows "round_double q = Num q"
proof -
  let ?u = "(2::rat) powi (max (ilog2 \<bar>q\<bar>) (- 1022) - 52)"
  have u: "0 < ?u" by (rule powi_pos)
  have r: "of_int k * ?u = \<bar>q\<bar>"
    using assms(3) u by (simp add: field_simps)
  have k0: "k \<noteq> 0" using r assms(1) by auto
  have n: "round_half_even (\<bar>q\<bar> / ?u) = k"
    by (simp only: assms(3) round_half_even_of_int)
  have "round_double q =
    (if 2 powi 1024 \<le> \<bar>q\<bar> then (if q < 0 then NegInf else PosInf)
     else if k = 0 then (if q < 0 then NegZero else Num 0)
     else Num (if q < 0 then - \<bar>q\<bar> else \<bar>q\<bar>))"
    by (subst round_double_unfold[OF assms(1) refl refl refl]) (simp only: n r)
  also have "\<dots> = Num (if q < 0 then - \<bar>q\<bar> else \<bar>q\<bar>)"
    using assms(2) k0 by (simp only: not_le[symmetric] if_False)
  also have "\<dots> = Num q" by simp
  finally show ?thesis .
qed

lemma round_double_int:
  assumes "\<bar>m\<bar> \<le> 2 ^ 53"
  shows "round_double (of_int m) = Num (of_int m)"
proof (cases "m = 0")
  case True
  then show ?thesis by (simp add: round_double_def)
next
  case False
  define a :: rat where "a = \<bar>of_int m\<bar>"
  define e where "e = ilog2 a"
  have a1: "1 \<le> a" using False by (simp add: a_def flip: of_int_abs)
  have a53: "a \<le> 2 ^ 53"
  proof -
    have "a = of_int \<bar>m\<bar>" by (simp add: a_def)
    also have "\<dots> \<le> of_int (2 ^ 53)" using assms by (simp only: of_int_le_iff)
    finally show ?thesis by simp
  qed
  have b: "2 powi e \<le> a" "a < 2 powi (e + 1)"
    using ilog2_bounds[of a] a1 by (simp_all add: e_def)
  have e0: "0 \<le> e"
  proof (rule ccontr)
    assume "\<not> 0 \<le> e"
    then have "(2::rat) powi (e + 1) \<le> 2 powi 0" by (intro powi_mono) simp
    with b(2) a1 show False by simp
  qed
  have e53: "e \<le> 53"
  proof (rule ccontr)
    assume "\<not> e \<le> 53"
    then have "(2::rat) powi 54 \<le> 2 powi e" by (intro powi_mono) simp
    with b(1) a53 show False by simp
  qed
  have "\<exists>k. a / 2 powi (e - 52) = of_int k"
  proof (cases "e \<le> 52")
    case True
    have "(2::rat) powi (e - 52) = 1 / 2 ^ nat (52 - e)"
      using True power_int_minus_divide[of "2::rat" "52 - e"] by (simp add: power_int_def)
    then have "a / 2 powi (e - 52) = of_int (\<bar>m\<bar> * 2 ^ nat (52 - e))"
      by (simp add: a_def)
    then show ?thesis by blast
  next
    case False
    with e53 have e: "e = 53" by simp
    with b(1) a53 have "a = 2 ^ 53" by simp
    then have "a / 2 powi (e - 52) = of_int (2 ^ 52)" by (simp add: e)
    then show ?thesis by blast
  qed
  then obtain k where k: "a / 2 powi (e - 52) = of_int k" by blast
  have m: "max e (- 1022) = e" using e0 by simp
  have "a < 2 powi 1024"
  proof -
    have "a \<le> 2 powi 53" using a53 by simp
    also have "\<dots> < 2 powi 1024" by (intro powi_strict) simp
    finally show ?thesis .
  qed
  moreover have "of_int m \<noteq> (0::rat)" using False by simp
  ultimately show ?thesis
    using round_double_exact[of "of_int m" k] k m
    by (simp add: a_def[symmetric] e_def[symmetric])
qed

lemma round_double_cert:
  assumes "2 powi e \<le> q" and "q < 2 powi (e + 1)" and "- 1022 \<le> e"
    and "round_half_even (q / 2 powi (e - 52)) = n" and "n \<noteq> 0"
    and "of_int n * 2 powi (e - 52) < (2::rat) powi 1024"
  shows "round_double q = Num (of_int n * 2 powi (e - 52))"
proof -
  have pos: "0 < q" using assms(1) powi_pos[of e] by linarith
  then have q: "q \<noteq> 0" "\<bar>q\<bar> = q" "\<not> q < 0" by simp_all
  have e: "max (ilog2 q) (- 1022) = e"
    using ilog2_eqI[OF assms(1,2)] assms(3) by simp
  have "round_double q =
    (if (2::rat) powi 1024 \<le> of_int n * 2 powi (e - 52) then (if q < 0 then NegInf else PosInf)
     else if n = 0 then (if q < 0 then NegZero else Num 0)
     else Num (if q < 0 then - (of_int n * 2 powi (e - 52)) else of_int n * 2 powi (e - 52)))"
    by (subst round_double_unfold[OF q(1) refl refl refl]) (simp only: q(2) e assms(4))
  also have "\<dots> = Num (of_int n * 2 powi (e - 52))"
    using assms(5,6) q(3) by (simp only: not_le[symmetric] if_False)
  finally show ?thesis .
qed

lemma floor_rat_numeral_div:
  "\<lfloor>(numeral a :: rat) / numeral b\<rfloor> = numeral a div numeral b"
  using floor_divide_of_int_eq[of "numeral a" "numeral b", where ?'a = rat] by simp

lemma js_add_int:
  assumes "\<bar>a + b\<bar> \<le> 2 ^ 53"
  shows "js_add (Num (of_int a)) (Num (of_int b)) = Num (of_int (a + b))"
  using round_double_int[OF assms] by simp

lemma js_add_nat:
  assumes "a + b \<le> 2 ^ 53"
  shows "js_add (Num (of_nat a)) (Num (of_nat b)) = Num (of_nat (a + b))"
proof -
  have "\<bar>int a + int b\<bar> \<le> 2 ^ 53" using assms by (simp flip: of_nat_add)
  from js_add_int[OF this] show ?thesis by simp
qed

lemma js_sub_nat:
  assumes "b \<le> a" "a \<le> 2 ^ 53"
  shows "js_sub (Num (of_nat a)) (Num (of_nat b)) = Num (of_nat (a - b))"
proof (cases "b = 0")
  case True
  then show ?thesis by (simp add: js_sub_def)
next
  case False
  have "\<bar>int a + (- int b)\<bar> \<le> 2 ^ 53" using assms by simp
  from js_add_int[OF this] False assms show ?thesis
    by (simp add: js_sub_def of_nat_diff)
qed

subsection \<open>Comparisons\<close>

lemma strict_eq_sym: "strict_eq x y \<Longrightarrow> strict_eq y x"
  by (cases x; cases y) auto

lemma strict_eq_trans: "strict_eq x y \<Longrightarrow> strict_eq y z \<Longrightarrow> strict_eq x z"
  by (cases x; cases y; cases z) auto

lemma js_lt_not_eq: "js_lt x y \<Longrightarrow> \<not> strict_eq x y"
  by (cases x; cases y) auto

lemma js_lt_trans: "js_lt x y \<Longrightarrow> js_lt y z \<Longrightarrow> js_lt x z"
  by (cases x; cases y; cases z) auto

lemma js_lt_eq_left: "strict_eq x k \<Longrightarrow> js_lt x y \<Longrightarrow> js_lt k y"
  by (cases x; cases y; cases k) auto

subsection \<open>findIndex\<close>

lemma findIndex_bounds: "- 1 \<le> findIndex p xs \<and> findIndex p xs < int (length xs)"
  by (induction xs) (auto simp: Let_def)

lemma findIndex_none: "findIndex p xs = - 1 \<longleftrightarrow> (\<forall>x\<in>set xs. \<not> p x)"
proof (induction xs)
  case Nil
  then show ?case by simp
next
  case (Cons x xs)
  then show ?case using findIndex_bounds[of p xs] by (auto simp: Let_def)
qed

lemma findIndex_found:
  "- 1 < findIndex p xs \<Longrightarrow> nat (findIndex p xs) < length xs \<and> p (xs ! nat (findIndex p xs))"
proof (induction xs)
  case Nil
  then show ?case by simp
next
  case (Cons x xs)
  then show ?case
    using findIndex_bounds[of p xs]
    by (auto simp: Let_def nat_add_distrib split: if_splits)
qed

lemma findIndex_append_last:
  "\<forall>x\<in>set xs. \<not> p x \<Longrightarrow> p y \<Longrightarrow> findIndex p (xs @ [y]) = int (length xs)"
  by (induction xs) (auto simp: Let_def)

subsection \<open>Unique ids\<close>

lemma unique_ids_append:
  "unique_ids (xs @ [t]) \<longleftrightarrow> unique_ids xs \<and> list_all (\<lambda>u. \<not> strict_eq (t_id u) (t_id t)) xs"
  by (induction xs) (auto simp: list_all_iff dest: strict_eq_sym)

lemma unique_ids_filter: "unique_ids xs \<Longrightarrow> unique_ids (filter P xs)"
  by (induction xs) (auto simp: list_all_iff)

lemma unique_ids_update:
  "unique_ids xs \<Longrightarrow> i < length xs \<Longrightarrow> strict_eq (t_id (xs ! i)) (t_id t) \<Longrightarrow>
   unique_ids (xs[i := t])"
proof (induction xs arbitrary: i)
  case Nil
  then show ?case by simp
next
  case (Cons x xs)
  show ?case
  proof (cases i)
    case 0
    with Cons.prems show ?thesis
      by (auto simp: list_all_iff dest: strict_eq_trans)
  next
    case (Suc j)
    from Cons.prems Suc have j: "j < length xs" "strict_eq (t_id (xs ! j)) (t_id t)" by simp_all
    from Cons.prems have x: "\<forall>u\<in>set xs. \<not> strict_eq (t_id x) (t_id u)" "unique_ids xs"
      by (simp_all add: list_all_iff)
    have "\<not> strict_eq (t_id x) (t_id t)"
    proof
      assume "strict_eq (t_id x) (t_id t)"
      with j(2) have "strict_eq (t_id x) (t_id (xs ! j))"
        by (blast intro: strict_eq_trans strict_eq_sym)
      with x(1) j(1) show False by simp
    qed
    with x(1) have "\<forall>u\<in>set (xs[j := t]). \<not> strict_eq (t_id x) (t_id u)"
      using set_update_subset_insert[of xs j t] by auto
    with Cons.IH[OF x(2) j] Suc show ?thesis by (simp add: list_all_iff)
  qed
qed

subsection \<open>The store invariant\<close>

lemma js_lt_count: "js_lt (Num (of_nat a)) (Num (of_nat b)) \<longleftrightarrow> a < b"
  by simp

lemma js_lt_count_mono: "js_lt i (Num (of_nat a)) \<Longrightarrow> a \<le> b \<Longrightarrow> js_lt i (Num (of_nat b))"
  by (cases i) auto

lemma add_inv:
  assumes "store_inv n s" and "n < 2 ^ 53"
  shows "store_inv (Suc n) (addTransaction f s)"
proof -
  from assms(1) have n: "nextId s = Num (of_nat n)" and u: "unique_ids (transactions s)"
    and b: "\<forall>t\<in>set (transactions s). js_lt (t_id t) (Num (of_nat n))"
    by (auto simp: store_inv_def ids_below_def list_all_iff)
  have "js_add (Num (of_nat n)) (Num (of_nat 1)) = Num (of_nat (n + 1))"
    using assms(2) by (intro js_add_nat) simp
  then have nx: "nextId (addTransaction f s) = Num (of_nat (Suc n))"
    by (simp add: addTransaction_def n)
  have "unique_ids (transactions (addTransaction f s))"
    using u b by (auto simp: addTransaction_def unique_ids_append list_all_iff n from_form_def
        new_Transaction_def dest: js_lt_not_eq)
  moreover have "ids_below (addTransaction f s)"
  proof -
    have old: "js_lt i (Num (of_nat (Suc n)))" if "js_lt i (Num (of_nat n))" for i
      using that by (rule js_lt_count_mono) simp
    have new: "js_lt (Num (of_nat n)) (Num (of_nat (Suc n)))" by simp
    have "js_lt (t_id t) (Num (of_nat (Suc n)))" if "t \<in> set (transactions (addTransaction f s))" for t
    proof -
      from that have "t \<in> set (transactions s) \<or> t_id t = Num (of_nat n)"
        by (auto simp: addTransaction_def n from_form_def new_Transaction_def)
      then show ?thesis using b old new by metis
    qed
    then show ?thesis unfolding ids_below_def nx list_all_iff by blast
  qed
  ultimately show ?thesis using nx by (simp add: store_inv_def)
qed

lemma update_inv:
  assumes "store_inv n s"
  shows "store_inv n (updateTransaction k f s)"
proof (cases "- 1 < findIndex (\<lambda>t. strict_eq (t_id t) k) (transactions s)")
  case False
  then show ?thesis using assms by (simp add: updateTransaction_def)
next
  case True
  let ?i = "nat (findIndex (\<lambda>t. strict_eq (t_id t) k) (transactions s))"
  from findIndex_found[OF True]
  have i: "?i < length (transactions s)" "strict_eq (t_id (transactions s ! ?i)) k" by simp_all
  have tid: "t_id (from_form k f) = k" by (simp add: from_form_def new_Transaction_def)
  from assms have n: "nextId s = Num (of_nat n)" and u: "unique_ids (transactions s)"
    and b: "\<forall>t\<in>set (transactions s). js_lt (t_id t) (Num (of_nat n))"
    by (auto simp: store_inv_def ids_below_def list_all_iff)
  have upd: "updateTransaction k f s = s\<lparr>transactions := (transactions s)[?i := from_form k f]\<rparr>"
    using True by (simp add: updateTransaction_def)
  have "unique_ids ((transactions s)[?i := from_form k f])"
    using u i by (intro unique_ids_update) (simp_all add: tid)
  moreover have "js_lt k (Num (of_nat n))"
    using b i by (meson js_lt_eq_left nth_mem)
  then have "\<forall>t\<in>set ((transactions s)[?i := from_form k f]). js_lt (t_id t) (Num (of_nat n))"
    using b set_update_subset_insert[of "transactions s" ?i "from_form k f"] by (auto simp: tid)
  ultimately show ?thesis
    by (simp add: upd store_inv_def ids_below_def list_all_iff n)
qed

lemma delete_inv:
  assumes "store_inv n s"
  shows "store_inv n (deleteTransaction c k s)"
  using assms
  by (auto simp: deleteTransaction_def store_inv_def ids_below_def list_all_iff
      intro: unique_ids_filter)

lemma run_inv:
  "store_inv n s \<Longrightarrow> n + adds as \<le> 2 ^ 53 \<Longrightarrow>
   store_inv (n + adds as) (run as s) \<and>
   list_all (\<lambda>i. \<exists>j. i = Num (of_nat j) \<and> j < n + adds as) (issued as s) \<and>
   list_all (\<lambda>i. js_lt i (Num (of_nat (n + adds as)))) (seen as s)"
proof (induction as arbitrary: n s)
  case Nil
  then show ?case by (auto simp: store_inv_def ids_below_def list_all_iff)
next
  case (Cons a as)
  from Cons.prems(1) have below: "list_all (\<lambda>i. js_lt i (Num (of_nat n))) (map t_id (transactions s))"
    by (auto simp: store_inv_def ids_below_def list_all_iff)
  have mono: "list_all (\<lambda>i. js_lt i (Num (of_nat m))) (map t_id (transactions s))" if "n \<le> m" for m
    using below that by (auto simp: list_all_iff intro: js_lt_count_mono)
  show ?case
  proof (cases a)
    case (Add f)
    from Cons.prems(2) Add have n: "n < 2 ^ 53" "Suc n + adds as \<le> 2 ^ 53" by simp_all
    from Cons.IH[OF add_inv[OF Cons.prems(1) n(1)] n(2), of f] Add Cons.prems(1) mono[of "Suc (n + adds as)"]
    show ?thesis by (auto simp: store_inv_def)
  next
    case (Update k f)
    from Cons.prems(2) Update have n: "n + adds as \<le> 2 ^ 53" by simp
    from Cons.IH[OF update_inv[OF Cons.prems(1)] n, of k f] Update mono[of "n + adds as"]
    show ?thesis by simp
  next
    case (Delete k c)
    from Cons.prems(2) Delete have n: "n + adds as \<le> 2 ^ 53" by simp
    from Cons.IH[OF delete_inv[OF Cons.prems(1)] n, of c k] Delete mono[of "n + adds as"]
    show ?thesis by simp
  qed
qed

lemma round_double_numeral:
  "numeral k \<le> (2::int) ^ 53 \<Longrightarrow> round_double (numeral k) = Num (numeral k)"
  using round_double_int[of "numeral k"] by simp

lemma round_double_2_53_1: "round_double 9007199254740993 = Num 9007199254740992"
  using round_double_cert[where e = 53 and n = 4503599627370496 and q = 9007199254740993]
  by (simp add: round_half_even_def Let_def floor_rat_numeral_div)

lemma is_count_eq: "is_count x \<Longrightarrow> strict_eq x x"
  by (cases x) (simp_all add: is_count_def)

lemma unique_ids_split:
  "unique_ids (xs @ t # ys) \<Longrightarrow> u \<in> set xs \<union> set ys \<Longrightarrow> \<not> strict_eq (t_id u) (t_id t)"
  by (induction xs) (auto simp: list_all_iff dest: strict_eq_sym)

subsection \<open>Sums\<close>

lemma reduce_amounts:
  "reduce (\<lambda>sum t. js_add sum (t_amount t)) a ts = foldl js_add a (map t_amount ts)"
  by (induction ts arbitrary: a) simp_all

lemma updateSummary_eq:
  "updateSummary s =
     \<lparr>totalIncome = foldl js_add (Num 0) (map t_amount (only ''income'' (transactions s))),
      totalExpenses = foldl js_add (Num 0) (map t_amount (only ''expense'' (transactions s))),
      netBalance = js_sub (foldl js_add (Num 0) (map t_amount (only ''income'' (transactions s))))
                     (foldl js_add (Num 0) (map t_amount (only ''expense'' (transactions s))))\<rparr>"
  by (simp add: updateSummary_def Let_def reduce_amounts only_def)

lemma is_count_floor: "is_count x \<Longrightarrow> x = Num (of_int \<lfloor>finite_value x\<rfloor>) \<and> 0 \<le> \<lfloor>finite_value x\<rfloor>"
  by (cases x) (auto simp: is_count_def)

lemma total_nonneg: "whole ts \<Longrightarrow> 0 \<le> exact_total ts"
  by (induction ts) (auto simp: whole_def exact_total_def dest: is_count_floor)

lemma total_append: "exact_total (xs @ ys) = exact_total xs + exact_total ys"
  by (simp add: exact_total_def)

lemma whole_append: "whole (xs @ ys) \<longleftrightarrow> whole xs \<and> whole ys"
  by (simp add: whole_def)

lemma whole_only: "whole ts \<Longrightarrow> whole (only c ts)"
  by (simp add: whole_def only_def list_all_iff)

lemma total_only_le: "whole ts \<Longrightarrow> exact_total (only c ts) \<le> exact_total ts"
proof (induction ts)
  case Nil
  then show ?case by (simp add: only_def exact_total_def)
next
  case (Cons t ts)
  define x where "x = \<lfloor>finite_value (t_amount t)\<rfloor>"
  from Cons.prems have w: "whole ts" and x: "0 \<le> x"
    by (auto simp: whole_def x_def dest: is_count_floor)
  have "exact_total (only c (t # ts)) = exact_total (only c ts) \<or>
        exact_total (only c (t # ts)) = x + exact_total (only c ts)"
    by (simp add: only_def exact_total_def x_def)
  moreover have "exact_total (t # ts) = x + exact_total ts"
    by (simp add: exact_total_def x_def)
  ultimately show ?case using Cons.IH[OF w] x by linarith
qed

lemma only_append: "only c (xs @ ys) = only c xs @ only c ys"
  by (simp add: only_def)

lemma foldl_exact:
  "whole ts \<Longrightarrow> 0 \<le> a \<Longrightarrow> a + exact_total ts \<le> 2 ^ 53 \<Longrightarrow>
   foldl js_add (Num (of_int a)) (map t_amount ts) = Num (of_int (a + exact_total ts))"
proof (induction ts arbitrary: a)
  case Nil
  then show ?case by (simp add: exact_total_def)
next
  case (Cons t ts)
  let ?x = "\<lfloor>finite_value (t_amount t)\<rfloor>"
  from Cons.prems(1) have w: "whole ts" and x: "t_amount t = Num (of_int ?x)" "0 \<le> ?x"
    by (auto simp: whole_def dest: is_count_floor)
  have tot: "exact_total (t # ts) = ?x + exact_total ts" by (simp add: exact_total_def)
  have nn: "0 \<le> exact_total ts" by (rule total_nonneg[OF w])
  have "\<bar>a + ?x\<bar> \<le> 2 ^ 53" using Cons.prems(2,3) x(2) nn tot by simp
  from js_add_int[OF this] have step: "js_add (Num (of_int a)) (t_amount t) = Num (of_int (a + ?x))"
    using x(1) by simp
  have "foldl js_add (Num (of_int (a + ?x))) (map t_amount ts) = Num (of_int (a + ?x + exact_total ts))"
    using Cons.prems(2,3) x(2) tot by (intro Cons.IH[OF w]) simp_all
  then show ?case by (simp add: step tot add.assoc)
qed

lemma foldl_exact0:
  "whole ts \<Longrightarrow> exact_total ts \<le> 2 ^ 53 \<Longrightarrow>
   foldl js_add (Num 0) (map t_amount ts) = Num (of_int (exact_total ts))"
  using foldl_exact[of ts 0] by simp

lemma js_sub_exact:
  assumes "0 \<le> a" "a \<le> 2 ^ 53" "0 \<le> b" "b \<le> 2 ^ 53"
  shows "js_sub (Num (of_int a)) (Num (of_int b)) = Num (of_int (a - b))"
proof (cases "b = 0")
  case True
  then show ?thesis by (simp add: js_sub_def)
next
  case False
  have "\<bar>a + (- b)\<bar> \<le> 2 ^ 53" using assms by simp
  from js_add_int[OF this] False show ?thesis by (simp add: js_sub_def)
qed

lemma summarize_exact:
  assumes "whole ts" and "exact_total ts \<le> 2 ^ 53"
  shows "summarize ts =
     \<lparr>totalIncome = Num (of_int (exact_total (only ''income'' ts))),
      totalExpenses = Num (of_int (exact_total (only ''expense'' ts))),
      netBalance = Num (of_int (exact_total (only ''income'' ts) - exact_total (only ''expense'' ts)))\<rparr>"
proof -
  have i: "exact_total (only ''income'' ts) \<le> 2 ^ 53" "0 \<le> exact_total (only ''income'' ts)"
    using total_only_le[OF assms(1), of "''income''"] assms(2)
      total_nonneg[OF whole_only[OF assms(1)], of "''income''"] by simp_all
  have e: "exact_total (only ''expense'' ts) \<le> 2 ^ 53" "0 \<le> exact_total (only ''expense'' ts)"
    using total_only_le[OF assms(1), of "''expense''"] assms(2)
      total_nonneg[OF whole_only[OF assms(1)], of "''expense''"] by simp_all
  have fi: "foldl js_add (Num 0) (map t_amount (only ''income'' ts)) =
      Num (of_int (exact_total (only ''income'' ts)))"
    by (rule foldl_exact0[OF whole_only[OF assms(1)] i(1)])
  have fe: "foldl js_add (Num 0) (map t_amount (only ''expense'' ts)) =
      Num (of_int (exact_total (only ''expense'' ts)))"
    by (rule foldl_exact0[OF whole_only[OF assms(1)] e(1)])
  show ?thesis
    unfolding summarize_def updateSummary_eq
    by (simp only: MoneyManager.simps fi fe js_sub_exact[OF i(2,1) e(2,1)])
qed

lemmas parse_defs =
  parseFloat_string_def scanStrDecimalLiteral_def scanSign_def scanUnsignedDecimal_def
  scanExponent_def js_def isDigit_def isWhiteSpace_def digitsValue_def digitValue_def Let_def

lemmas cert_defs = round_half_even_def Let_def floor_rat_numeral_div

lemma round_0_1: "round_double (1 / 10) = Num (3602879701896397 / 36028797018963968)"
  using round_double_cert[where e = "- 4" and n = 7205759403792794 and q = "1 / 10"]
  by (simp add: cert_defs)

lemma round_0_2: "round_double (1 / 5) = Num (3602879701896397 / 18014398509481984)"
  using round_double_cert[where e = "- 3" and n = 7205759403792794 and q = "1 / 5"]
  by (simp add: cert_defs)

lemma round_0_3: "round_double (3 / 10) = Num (5404319552844595 / 18014398509481984)"
  using round_double_cert[where e = "- 2" and n = 5404319552844595 and q = "3 / 10"]
  by (simp add: cert_defs)

lemma round_0_1_plus_0_2:
  "round_double (10808639105689191 / 36028797018963968) =
   Num (1351079888211149 / 4503599627370496)"
  using round_double_cert[where e = "- 2" and n = 5404319552844596
      and q = "10808639105689191 / 36028797018963968"]
  by (simp add: cert_defs)

lemma round_0_3_plus_0_3:
  "round_double (10808639105689191 / 18014398509481984) =
   Num (1351079888211149 / 2251799813685248)"
  using round_double_cert[where e = "- 1" and n = 5404319552844596
      and q = "10808639105689191 / 18014398509481984"]
  by (simp add: cert_defs)

lemma round_0_5: "round_double (1 / 2) = Num (1 / 2)"
  using round_double_cert[where e = "- 1" and n = 4503599627370496 and q = "1 / 2"]
  by (simp add: cert_defs)

lemma round_0_1_plus_0_5:
  "round_double (21617278211378381 / 36028797018963968) =
   Num (5404319552844595 / 9007199254740992)"
  using round_double_cert[where e = "- 1" and n = 5404319552844595
      and q = "21617278211378381 / 36028797018963968"]
  by (simp add: cert_defs)

lemma round_again_0_1:
  "round_double (3602879701896397 / 36028797018963968) =
   Num (3602879701896397 / 36028797018963968)"
  using round_double_cert[where e = "- 4" and n = 7205759403792794
      and q = "3602879701896397 / 36028797018963968"]
  by (simp add: cert_defs)

lemma round_again_0_2:
  "round_double (3602879701896397 / 18014398509481984) =
   Num (3602879701896397 / 18014398509481984)"
  using round_double_cert[where e = "- 3" and n = 7205759403792794
      and q = "3602879701896397 / 18014398509481984"]
  by (simp add: cert_defs)

lemma gift_amounts:
  "t_amount (gift i ''0.1'') = Num (3602879701896397 / 36028797018963968)"
  "t_amount (gift i ''0.2'') = Num (3602879701896397 / 18014398509481984)"
  "t_amount (gift i ''0.3'') = Num (5404319552844595 / 18014398509481984)"
  "t_category (gift i a) = Some (js ''income'')"
  by (simp_all add: gift_def from_form_def new_Transaction_def form_def parse_defs
      round_0_1 round_0_2 round_0_3)

lemma amount_1000: "parseFloat_string (js ''1000'') = Num 1000"
  by (simp add: parse_defs round_double_numeral)

lemma amount_200: "parseFloat_string (js ''200'') = Num 200"
  by (simp add: parse_defs round_double_numeral)

lemma example_records:
  "from_form i salary =
     \<lparr>t_id = i, t_amount = Num 1000, t_date = js ''2024-01-01'', t_category = Some (js ''income''),
      t_subCategory = js ''salary'', t_description = trim (js '' January pay '')\<rparr>"
  "from_form i groceries =
     \<lparr>t_id = i, t_amount = Num 200, t_date = js ''2024-01-02'', t_category = Some (js ''expense''),
      t_subCategory = js ''groceries'', t_description = trim (js '''')\<rparr>"
  by (simp_all add: from_form_def new_Transaction_def salary_def groceries_def form_def
      amount_1000 amount_200)

lemma income_not_expense: "js ''income'' \<noteq> js ''expense''" "js ''expense'' \<noteq> js ''income''"
  by (simp_all add: js_def)

lemma example_whole:
  "whole [from_form i salary, from_form j groceries]"
  "exact_total [from_form i salary, from_form j groceries] = 1200"
  "only ''income'' [from_form i salary, from_form j groceries] = [from_form i salary]"
  "only ''expense'' [from_form i salary, from_form j groceries] = [from_form j groceries]"
  "exact_total [from_form i salary] = 1000"
  "exact_total [from_form j groceries] = 200"
  by (simp_all add: example_records whole_def exact_total_def is_count_def only_def
      income_not_expense)

subsection \<open>Sorting and filtering\<close>

lemma insert_by_zero: "insert_by (\<lambda>a b. Num 0) x ys = x # ys"
  by (cases ys) (simp_all add: js_gt_def)

lemma sort_by_zero: "sort_by (\<lambda>a b. Num 0) xs = xs"
  by (induction xs) (simp_all add: sort_by_def insert_by_zero)

lemma compareFn_other:
  "sortOption \<notin> set sort_options \<Longrightarrow> compareFn other sortOption = (\<lambda>a b. Num 0)"
  by (auto simp: compareFn_def sort_options_def fun_eq_iff)

lemma mset_insert_by: "mset (insert_by cmp x ys) = add_mset x (mset ys)"
  by (induction ys) simp_all

lemma mset_sort_by: "mset (sort_by cmp xs) = mset xs"
  by (induction xs) (simp_all add: sort_by_def mset_insert_by)

lemma set_sort_by: "set (sort_by cmp xs) = set xs"
  using mset_sort_by[of cmp xs] by (metis set_mset_mset)

lemma filtered_rows:
  "(let all_rows = ts;
        by_category = (if categoryFilter \<noteq> js ''all''
                       then filter (\<lambda>t. t_category t = Some categoryFilter) all_rows
                       else all_rows);
        by_date = (if dateFilter \<noteq> []
                   then filter (\<lambda>t. t_date t = dateFilter) by_category
                   else by_category)
    in by_date) = filter (passes categoryFilter dateFilter) ts"
  by (auto simp: passes_def Let_def intro: filter_cong)

lemma renderTransactions_eq:
  "renderTransactions other categoryFilter dateFilter sortOption s =
   sort_by (compareFn other sortOption) (filter (passes categoryFilter dateFilter) (transactions s))"
  using filtered_rows[of "transactions s" categoryFilter dateFilter]
  by (simp add: renderTransactions_def Let_def)

lemma income_not_all: "js ''income'' \<noteq> js ''all''"
  by (simp add: js_def)

subsection \<open>Validation\<close>

lemma round_double_neg_numeral:
  "numeral k \<le> (2::int) ^ 53 \<Longrightarrow> round_double (- numeral k) = Num (- numeral k)"
  using round_double_int[of "- numeral k"] by simp

lemma date_2024_01_01: "Date_parse other (js ''2024-01-01'') = Num 1704067200000"
  by (simp add: Date_parse_def js_def isDigit_def digitsValue_def digitValue_def daysInMonth_def
      days_from_civil_def)

lemma empty_amount: "isNaN [] = False" "parseFloat_string [] = NaN"
  by (simp_all add: isNaN_def StringToNumber_def trim_def parse_defs)

lemma minus_five: "isNaN (js ''-5'') = False" "parseFloat_string (js ''-5'') = Num (- 5)"
  by (simp_all add: isNaN_def StringToNumber_def trim_def parse_defs round_double_neg_numeral)

subsection \<open>Trimmed descriptions\<close>

lemma last_dropWhile: "dropWhile P xs \<noteq> [] \<Longrightarrow> last (dropWhile P xs) = last xs"
  by (induction xs) (auto split: if_splits)

lemma trimmed_trim: "trimmed (trim s)"
proof (cases "trim s = []")
  case True
  then show ?thesis by (simp add: trimmed_def)
next
  case False
  define t where "t = dropWhile isWhiteSpace s"
  define u where "u = dropWhile isWhiteSpace (rev t)"
  have tr: "trim s = rev u" by (simp add: trim_def t_def u_def)
  with False have u: "u \<noteq> []" by simp
  then have rt: "rev t \<noteq> []" by (auto simp: u_def)
  then have t: "t \<noteq> []" by simp
  have "hd u = hd (dropWhile isWhiteSpace (rev t))" by (simp add: u_def)
  then have a: "\<not> isWhiteSpace (hd u)" using u hd_dropWhile[of isWhiteSpace "rev t"]
    by (simp add: u_def)
  have "last u = last (rev t)" using u unfolding u_def by (rule last_dropWhile)
  also have "\<dots> = hd t" using t by (simp add: last_rev)
  finally have b: "\<not> isWhiteSpace (last u)"
    using t hd_dropWhile[of isWhiteSpace s] by (simp add: t_def)
  show ?thesis using a b u by (simp add: trimmed_def tr hd_rev last_rev)
qed

lemma reachable_trimmed:
  "reachable s \<Longrightarrow> \<forall>t\<in>set (transactions s). trimmed (t_description t)"
proof (induction rule: reachable.induct)
  case start
  then show ?case by (simp add: constructor_def)
next
  case (load s item)
  then show ?case
    by (cases item)
      (auto simp: loadInitialData_def Let_def rehydrate_def new_Transaction_def trimmed_trim)
next
  case (step s a)
  show ?case
  proof (cases a)
    case (Add f)
    with step.IH show ?thesis
      by (auto simp: addTransaction_def from_form_def new_Transaction_def trimmed_trim)
  next
    case (Update k f)
    have "trimmed (t_description (from_form k f))"
      by (simp add: from_form_def new_Transaction_def trimmed_trim)
    with step.IH Update show ?thesis
      using set_update_subset_insert[of "transactions s" _ "from_form k f"]
      by (auto simp: updateTransaction_def Let_def)
  next
    case (Delete k c)
    with step.IH show ?thesis by (auto simp: deleteTransaction_def)
  qed
qed

lemma trim_example: "trim (js '' January pay '') = js ''January pay''"
  by (simp add: trim_def js_def isWhiteSpace_def)

subsection \<open>Sums without rounding\<close>

lemma summarize_append_whole:
  "totalIncome (summarize (xs @ ys)) =
     foldl js_add (totalIncome (summarize xs)) (map t_amount (only ''income'' ys)) \<and>
   totalExpenses (summarize (xs @ ys)) =
     foldl js_add (totalExpenses (summarize xs)) (map t_amount (only ''expense'' ys)) \<and>
   netBalance (summarize (xs @ ys)) =
     js_sub (totalIncome (summarize (xs @ ys))) (totalExpenses (summarize (xs @ ys))) \<and>
   (whole (xs @ ys) \<and> exact_total (xs @ ys) \<le> 2 ^ 53 \<longrightarrow>
      totalIncome (summarize (xs @ ys)) =
        js_add (totalIncome (summarize xs)) (totalIncome (summarize ys)) \<and>
      totalExpenses (summarize (xs @ ys)) =
        js_add (totalExpenses (summarize xs)) (totalExpenses (summarize ys)) \<and>
      netBalance (summarize (xs @ ys)) =
        js_add (netBalance (summarize xs)) (netBalance (summarize ys)))"
proof -
  have general:
    "totalIncome (summarize (xs @ ys)) =
       foldl js_add (totalIncome (summarize xs)) (map t_amount (only ''income'' ys))"
    "totalExpenses (summarize (xs @ ys)) =
       foldl js_add (totalExpenses (summarize xs)) (map t_amount (only ''expense'' ys))"
    "netBalance (summarize (xs @ ys)) =
       js_sub (totalIncome (summarize (xs @ ys))) (totalExpenses (summarize (xs @ ys)))"
    by (simp_all add: summarize_def updateSummary_eq only_append)
  have exact:
    "totalIncome (summarize (xs @ ys)) =
        js_add (totalIncome (summarize xs)) (totalIncome (summarize ys)) \<and>
      totalExpenses (summarize (xs @ ys)) =
        js_add (totalExpenses (summarize xs)) (totalExpenses (summarize ys)) \<and>
      netBalance (summarize (xs @ ys)) =
        js_add (netBalance (summarize xs)) (netBalance (summarize ys))"
    if w: "whole (xs @ ys)" and t: "exact_total (xs @ ys) \<le> 2 ^ 53"
  proof -
    from w have wx: "whole xs" and wy: "whole ys" by (simp_all add: whole_append)
    have nx: "0 \<le> exact_total xs" and ny: "0 \<le> exact_total ys"
      using total_nonneg wx wy by simp_all
    from t have txy: "exact_total xs + exact_total ys \<le> 2 ^ 53" by (simp add: total_append)
    with nx ny have tx: "exact_total xs \<le> 2 ^ 53" and ty: "exact_total ys \<le> 2 ^ 53" by simp_all
    define ix iy ex ey where "ix = exact_total (only ''income'' xs)"
      and "iy = exact_total (only ''income'' ys)"
      and "ex = exact_total (only ''expense'' xs)"
      and "ey = exact_total (only ''expense'' ys)"
    have b: "0 \<le> ix" "0 \<le> iy" "0 \<le> ex" "0 \<le> ey"
      "ix \<le> exact_total xs" "ex \<le> exact_total xs" "iy \<le> exact_total ys" "ey \<le> exact_total ys"
      unfolding ix_def iy_def ex_def ey_def
      using total_nonneg[OF whole_only[OF wx]] total_nonneg[OF whole_only[OF wy]]
        total_only_le[OF wx] total_only_le[OF wy] by simp_all
    have sxy: "summarize (xs @ ys) =
      \<lparr>totalIncome = Num (of_int (ix + iy)), totalExpenses = Num (of_int (ex + ey)),
       netBalance = Num (of_int ((ix + iy) - (ex + ey)))\<rparr>"
      using summarize_exact[OF w t]
      by (simp add: only_append total_append ix_def iy_def ex_def ey_def)
    have sx: "summarize xs =
      \<lparr>totalIncome = Num (of_int ix), totalExpenses = Num (of_int ex),
       netBalance = Num (of_int (ix - ex))\<rparr>"
      using summarize_exact[OF wx tx] by (simp add: ix_def ex_def)
    have sy: "summarize ys =
      \<lparr>totalIncome = Num (of_int iy), totalExpenses = Num (of_int ey),
       netBalance = Num (of_int (iy - ey))\<rparr>"
      using summarize_exact[OF wy ty] by (simp add: iy_def ey_def)
    have "\<bar>ix + iy\<bar> \<le> 2 ^ 53" "\<bar>ex + ey\<bar> \<le> 2 ^ 53" "\<bar>(ix - ex) + (iy - ey)\<bar> \<le> 2 ^ 53"
      using b txy by simp_all
    from this[THEN js_add_int] show ?thesis
      unfolding sxy sx sy by (simp add: algebra_simps)
  qed
  from general exact show ?thesis by blast
qed

lemma exact_addD: "exact_add x y \<Longrightarrow> js_add x y = Num (finite_value x + finite_value y)"
  by (cases x; cases y) simp_all

lemma exact_subD: "exact_sub x y \<Longrightarrow> js_sub x y = Num (finite_value x - finite_value y)"
  by (cases x; cases y) simp_all

lemma exact_fold_value:
  "exact_fold a xs \<Longrightarrow> foldl js_add (Num a) xs = Num (a + sum_list (map finite_value xs))"
proof (induction xs arbitrary: a)
  case Nil
  then show ?case by simp
next
  case (Cons x xs)
  from Cons.prems have x: "js_add (Num a) x = Num (a + finite_value x)"
    and r: "exact_fold (a + finite_value x) xs"
    by (auto dest: exact_addD)
  from Cons.IH[OF r] x show ?case by (simp add: add.assoc)
qed

lemma exact_fold_append:
  "exact_fold a (xs @ ys) \<Longrightarrow> exact_fold a xs"
  by (induction xs arbitrary: a) auto

lemma summarize_append_exact:
  assumes "no_rounding xs ys"
  shows "totalIncome (summarize (xs @ ys)) =
        js_add (totalIncome (summarize xs)) (totalIncome (summarize ys)) \<and>
      totalExpenses (summarize (xs @ ys)) =
        js_add (totalExpenses (summarize xs)) (totalExpenses (summarize ys)) \<and>
      netBalance (summarize (xs @ ys)) =
        js_add (netBalance (summarize xs)) (netBalance (summarize ys))"
proof -
  define amt where "amt c zs = sum_list (map finite_value (map t_amount (only c zs)))" for c zs
  have amt_app: "amt c (xs @ ys) = amt c xs + amt c ys" for c
    by (simp add: amt_def only_append)
  have tot: "foldl js_add (Num 0) (map t_amount (only c zs)) = Num (amt c zs)"
    if "exact_fold 0 (map t_amount (only c zs))" for c zs
    using exact_fold_value[OF that] by (simp add: amt_def)
  from assms have
    ixy: "exact_fold 0 (map t_amount (only ''income'' (xs @ ys)))" and
    iy: "exact_fold 0 (map t_amount (only ''income'' ys))" and
    exy: "exact_fold 0 (map t_amount (only ''expense'' (xs @ ys)))" and
    ey: "exact_fold 0 (map t_amount (only ''expense'' ys))"
    by (simp_all add: no_rounding_def)
  from ixy have ix: "exact_fold 0 (map t_amount (only ''income'' xs))"
    by (simp add: only_append exact_fold_append)
  from exy have ex: "exact_fold 0 (map t_amount (only ''expense'' xs))"
    by (simp add: only_append exact_fold_append)
  have ti: "totalIncome (summarize zs) = foldl js_add (Num 0) (map t_amount (only ''income'' zs))"
    and te: "totalExpenses (summarize zs) = foldl js_add (Num 0) (map t_amount (only ''expense'' zs))"
    and nb: "netBalance (summarize zs) = js_sub (totalIncome (summarize zs)) (totalExpenses (summarize zs))"
    for zs by (simp_all add: summarize_def updateSummary_eq)
  have v: "totalIncome (summarize (xs @ ys)) = Num (amt ''income'' xs + amt ''income'' ys)"
    "totalIncome (summarize xs) = Num (amt ''income'' xs)"
    "totalIncome (summarize ys) = Num (amt ''income'' ys)"
    "totalExpenses (summarize (xs @ ys)) = Num (amt ''expense'' xs + amt ''expense'' ys)"
    "totalExpenses (summarize xs) = Num (amt ''expense'' xs)"
    "totalExpenses (summarize ys) = Num (amt ''expense'' ys)"
    by (simp_all add: ti te tot[OF ixy] tot[OF ix] tot[OF iy] tot[OF exy] tot[OF ex] tot[OF ey]
        amt_app)
  from assms have
    a1: "exact_add (totalIncome (summarize xs)) (totalIncome (summarize ys))" and
    a2: "exact_add (totalExpenses (summarize xs)) (totalExpenses (summarize ys))" and
    s1: "exact_sub (totalIncome (summarize (xs @ ys))) (totalExpenses (summarize (xs @ ys)))" and
    s2: "exact_sub (totalIncome (summarize xs)) (totalExpenses (summarize xs))" and
    s3: "exact_sub (totalIncome (summarize ys)) (totalExpenses (summarize ys))" and
    a3: "exact_add (netBalance (summarize xs)) (netBalance (summarize ys))"
    by (simp_all add: no_rounding_def)
  have n: "netBalance (summarize (xs @ ys)) =
      Num (amt ''income'' xs + amt ''income'' ys - (amt ''expense'' xs + amt ''expense'' ys))"
    "netBalance (summarize xs) = Num (amt ''income'' xs - amt ''expense'' xs)"
    "netBalance (summarize ys) = Num (amt ''income'' ys - amt ''expense'' ys)"
    using exact_subD[OF s1] exact_subD[OF s2] exact_subD[OF s3]
    by (simp_all add: nb v)
  have "js_add (totalIncome (summarize xs)) (totalIncome (summarize ys)) =
      Num (amt ''income'' xs + amt ''income'' ys)"
    using exact_addD[OF a1] by (simp add: v)
  moreover have "js_add (totalExpenses (summarize xs)) (totalExpenses (summarize ys)) =
      Num (amt ''expense'' xs + amt ''expense'' ys)"
    using exact_addD[OF a2] by (simp add: v)
  moreover have "js_add (netBalance (summarize xs)) (netBalance (summarize ys)) =
      Num (amt ''income'' xs - amt ''expense'' xs + (amt ''income'' ys - amt ''expense'' ys))"
    using exact_addD[OF a3] by (simp add: n)
  ultimately show ?thesis by (simp add: v n algebra_simps)
qed

lemma round_0_25: "round_double (1 / 4) = Num (1 / 4)"
  using round_double_cert[where e = "- 2" and n = 4503599627370496 and q = "1 / 4"]
  by (simp add: cert_defs)

lemma round_0_75: "round_double (3 / 4) = Num (3 / 4)"
  using round_double_cert[where e = "- 1" and n = 6755399441055744 and q = "3 / 4"]
  by (simp add: cert_defs)

lemma round_double_0: "round_double 0 = Num 0"
  by (simp add: round_double_def)

lemma gift_halves:
  "t_amount (gift i ''0.5'') = Num (1 / 2)"
  "t_amount (gift i ''0.25'') = Num (1 / 4)"
  by (simp_all add: gift_def from_form_def new_Transaction_def form_def parse_defs
      round_0_5 round_0_25)

lemma no_rounding_example: "no_rounding [gift 1 ''0.5''] [gift 2 ''0.25'']"
  unfolding no_rounding_def summarize_def updateSummary_eq
  by (simp add: only_def gift_amounts(4) gift_halves income_not_expense js_sub_def
      round_0_5 round_0_25 round_0_75 round_double_0)

subsection \<open>A store whose counter has stalled\<close>

lemma stale_store_eq:
  "stale_store =
     \<lparr>transactions = [rehydrate old_row, from_form (Num 9007199254740992) salary],
      nextId = Num 9007199254740992\<rparr>"
  by (simp add: stale_store_def loadInitialData_def addTransaction_def constructor_def Let_def
      old_row_def rehydrate_def new_Transaction_def round_double_numeral round_double_2_53_1)

lemma stale_store_reachable: "reachable stale_store"
  using reachable.step[OF reachable.load[OF reachable.start], of "Add salary" "Rows [old_row]"]
  by (simp add: stale_store_def)

section \<open>The claims\<close>

text \<open>
  C1 as stated fails where the counter leaves the exactly representable integers:
  \<open>2\<^sup>5\<^sup>3 + 1\<close> rounds back to \<open>2\<^sup>5\<^sup>3\<close>, so \<open>this.nextId++\<close> no longer advances.  From the empty
  store with \<open>nextId = 9007199254740992\<close>, which has unique ids all below \<open>nextId\<close>, two
  adds issue the same id twice.
\<close>

theorem nextId_stalls_counterexample:
  "unique_ids (transactions \<lparr>transactions = [], nextId = Num 9007199254740992\<rparr>) \<and>
   ids_below \<lparr>transactions = [], nextId = Num 9007199254740992\<rparr> \<and>
   map t_id (transactions (run [Add salary, Add groceries]
      \<lparr>transactions = [], nextId = Num 9007199254740992\<rparr>))
     = [Num 9007199254740992, Num 9007199254740992] \<and>
   \<not> unique_ids (transactions (run [Add salary, Add groceries]
      \<lparr>transactions = [], nextId = Num 9007199254740992\<rparr>))"
  by (simp add: ids_below_def addTransaction_def from_form_def new_Transaction_def round_double_2_53_1)

text \<open>
  C1, as amended.  Start from a store whose ids are unique and below \<open>nextId\<close>, where
  \<open>nextId\<close> is the integer \<open>n\<close>, and run any sequence of adds, updates and deletes that
  keeps the counter within \<open>2\<^sup>5\<^sup>3\<close> (\<open>n\<close> plus the number of adds).  Then the ids of the
  resulting collection are unique, \<open>nextId\<close> has advanced by the number of adds, every id
  issued by an add is at most \<open>nextId - 1\<close>, and every id issued or present at any point of
  the run is below the final \<open>nextId\<close>.
\<close>

theorem ids_unique_below_nextId:
  assumes "unique_ids (transactions s)" and "ids_below s"
    and "nextId s = Num (of_nat n)" and "n + adds as \<le> 2 ^ 53"
  shows "unique_ids (transactions (run as s)) \<and>
         nextId (run as s) = Num (of_nat (n + adds as)) \<and>
         list_all (\<lambda>i. js_le i (js_sub (nextId (run as s)) (Num 1))) (issued as s) \<and>
         list_all (\<lambda>i. js_lt i (nextId (run as s))) (issued as s @ seen as s)"
proof -
  let ?m = "n + adds as"
  from assms have "store_inv n s" by (simp add: store_inv_def)
  from run_inv[OF this assms(4)]
  have inv: "store_inv ?m (run as s)"
    and iss: "list_all (\<lambda>i. \<exists>j. i = Num (of_nat j) \<and> j < ?m) (issued as s)"
    and sn: "list_all (\<lambda>i. js_lt i (Num (of_nat ?m))) (seen as s)"
    by simp_all
  from inv have nx: "nextId (run as s) = Num (of_nat ?m)" and u: "unique_ids (transactions (run as s))"
    by (simp_all add: store_inv_def)
  have le: "js_le i (js_sub (Num (of_nat ?m)) (Num 1)) \<and> js_lt i (Num (of_nat ?m))"
    if "i \<in> set (issued as s)" for i
  proof -
    from iss that obtain j where j: "i = Num (of_nat j)" "j < ?m" by (auto simp: list_all_iff)
    have "js_sub (Num (of_nat ?m)) (Num (of_nat 1)) = Num (of_nat (?m - 1))"
      using j(2) assms(4) by (intro js_sub_nat) simp_all
    with j show ?thesis by (auto simp: js_le_def)
  qed
  show ?thesis using u nx le sn by (auto simp: list_all_iff)
qed

text \<open>
  C1, as amended, on the fresh store: an add, an update and a delete of record 1, and another
  add.
\<close>

theorem ids_unique_below_nextId_witness:
  "unique_ids (transactions constructor) \<and> ids_below constructor \<and>
   nextId constructor = Num (of_nat 1) \<and>
   1 + adds [Add salary, Update (Num 1) groceries, Delete (Num 1) True, Add salary] \<le> 2 ^ 53 \<and>
   unique_ids (transactions
     (run [Add salary, Update (Num 1) groceries, Delete (Num 1) True, Add salary] constructor)) \<and>
   nextId (run [Add salary, Update (Num 1) groceries, Delete (Num 1) True, Add salary] constructor)
     = Num 3"
proof -
  let ?as = "[Add salary, Update (Num 1) groceries, Delete (Num 1) True, Add salary]"
  have h1: "unique_ids (transactions constructor)" by (simp add: constructor_def)
  have h2: "ids_below constructor" by (simp add: constructor_def ids_below_def)
  have h3: "nextId constructor = Num (of_nat 1)" by (simp add: constructor_def)
  have h4: "1 + adds ?as \<le> 2 ^ 53" by simp
  from ids_unique_below_nextId[OF h1 h2 h3 h4] h1 h2 h3 h4 show ?thesis by simp
qed

text \<open>
  C2 as stated, for every state, fails in a store whose \<open>nextId\<close> is the id of a record it
  holds.  The program reaches one: after loading a record with id \<open>2\<^sup>5\<^sup>3 - 1\<close> the counter
  is \<open>2\<^sup>5\<^sup>3\<close>, and the add of the salary entry issues \<open>2\<^sup>5\<^sup>3\<close> and leaves the counter there.
  Adding the groceries entry issues \<open>2\<^sup>5\<^sup>3\<close> again, and the update of that id with the rent
  entry replaces the first record with this id, the salary entry: the record just added
  keeps the fields of the groceries entry.
\<close>

theorem add_then_update_hits_older_record_counterexample:
  "reachable stale_store \<and>
   nextId stale_store = Num 9007199254740992 \<and>
   map t_id (transactions stale_store) = [Num 9007199254740991, Num 9007199254740992] \<and>
   transactions (updateTransaction (nextId stale_store) rent (addTransaction groceries stale_store)) =
     [rehydrate old_row, from_form (Num 9007199254740992) rent,
      from_form (Num 9007199254740992) groceries] \<and>
   t_subCategory (from_form (Num 9007199254740992) groceries) = js ''groceries'' \<and>
   t_subCategory (from_form (Num 9007199254740992) rent) = js ''rent''"
proof -
  have ids: "t_id (rehydrate old_row) = Num 9007199254740991"
    "t_id (from_form i f) = i" for i f
    by (simp_all add: rehydrate_def old_row_def from_form_def new_Transaction_def)
  have sub: "t_subCategory (from_form i groceries) = js ''groceries''"
    "t_subCategory (from_form i rent) = js ''rent''" for i
    by (simp_all add: from_form_def new_Transaction_def groceries_def rent_def form_def)
  show ?thesis
    unfolding stale_store_eq
    using stale_store_reachable[unfolded stale_store_eq]
    by (simp add: updateTransaction_def addTransaction_def ids sub Let_def)
qed

text \<open>
  C2, as amended.  In a store whose \<open>nextId\<close> is a non-negative integer above every id,
  \<open>add(F1)\<close> followed by \<open>update\<close> of the id just issued, with fields \<open>F2\<close>, leaves the old
  records as they were, followed by one record with the issued id whose other fields are
  those of \<open>F2\<close>, normalised (amount parsed, description trimmed); nothing of \<open>F1\<close> remains.
\<close>

theorem add_then_update_replaces:
  assumes "is_count (nextId s)" and "ids_below s"
  shows "updateTransaction (nextId s) F2 (addTransaction F1 s) =
         \<lparr>transactions = transactions s @
            [\<lparr>t_id = nextId s, t_amount = parseFloat_string (f_amount F2), t_date = f_date F2,
              t_category = f_category F2, t_subCategory = f_subCategory F2,
              t_description = trim (f_description F2)\<rparr>],
          nextId = js_add (nextId s) (Num 1)\<rparr>"
proof -
  let ?p = "\<lambda>t. strict_eq (t_id t) (nextId s)"
  have fresh: "\<forall>t\<in>set (transactions s). \<not> ?p t"
    using assms(2) by (auto simp: ids_below_def list_all_iff dest: js_lt_not_eq)
  have new: "?p (from_form (nextId s) F1)"
    using is_count_eq[OF assms(1)] by (simp add: from_form_def new_Transaction_def)
  have "findIndex ?p (transactions s @ [from_form (nextId s) F1]) = int (length (transactions s))"
    by (rule findIndex_append_last[OF fresh new])
  then show ?thesis
    by (simp add: updateTransaction_def addTransaction_def from_form_def new_Transaction_def)
qed

text \<open>
  C2, as amended, on the fresh store: the salary entry is added and then replaced by the groceries entry.
\<close>

theorem add_then_update_replaces_witness:
  "is_count (nextId constructor) \<and> ids_below constructor \<and>
   updateTransaction (Num 1) groceries (addTransaction salary constructor) =
     \<lparr>transactions =
        [\<lparr>t_id = Num 1, t_amount = parseFloat_string (js ''200''), t_date = js ''2024-01-02'',
          t_category = Some (js ''expense''), t_subCategory = js ''groceries'',
          t_description = trim (js '''')\<rparr>],
      nextId = js_add (Num 1) (Num 1)\<rparr>"
proof -
  have h1: "is_count (nextId constructor)" by (simp add: constructor_def is_count_def)
  have h2: "ids_below constructor" by (simp add: constructor_def ids_below_def)
  from add_then_update_replaces[OF h1 h2, of groceries salary] h1 h2 show ?thesis
    by (simp add: constructor_def groceries_def form_def)
qed

text \<open>
  C3.  In a collection with unique ids that holds a record with id \<open>k\<close>, \<open>delete(k)\<close>, the
  removal that \<open>deleteTransaction\<close> performs once the user has confirmed it, removes that one
  record and keeps all others, with their fields and in their order.  Without the
  confirmation nothing is removed.
\<close>

theorem delete_removes_exactly_one:
  assumes "unique_ids (transactions s)" and "list_ex (\<lambda>t. strict_eq (t_id t) k) (transactions s)"
  shows "(\<exists>xs t ys. transactions s = xs @ t # ys \<and> strict_eq (t_id t) k \<and>
            deleteTransaction True k s = s\<lparr>transactions := xs @ ys\<rparr>) \<and>
         deleteTransaction False k s = s"
proof -
  from assms(2) obtain xs t ys where ts: "transactions s = xs @ t # ys" and t: "strict_eq (t_id t) k"
    by (auto simp: list_ex_iff dest: split_list)
  have keep: "\<not> strict_eq (t_id u) k" if "u \<in> set xs \<union> set ys" for u
  proof
    assume "strict_eq (t_id u) k"
    with t have "strict_eq (t_id u) (t_id t)" by (blast intro: strict_eq_trans strict_eq_sym)
    with unique_ids_split[OF assms(1)[unfolded ts] that] show False by simp
  qed
  then have "filter (\<lambda>t. \<not> strict_eq (t_id t) k) (xs @ t # ys) = xs @ ys"
    using t by (simp add: filter_id_conv)
  then have "deleteTransaction True k s = s\<lparr>transactions := xs @ ys\<rparr>"
    by (simp add: deleteTransaction_def ts)
  with ts t show ?thesis by (auto simp: deleteTransaction_def)
qed

text \<open>
  C3 on the store holding the salary entry (id 1) and the groceries entry (id 2).
\<close>

theorem delete_removes_exactly_one_witness:
  "unique_ids (transactions (run [Add salary, Add groceries] constructor)) \<and>
   list_ex (\<lambda>t. strict_eq (t_id t) (Num 1)) (transactions (run [Add salary, Add groceries] constructor)) \<and>
   transactions (deleteTransaction True (Num 1) (run [Add salary, Add groceries] constructor)) =
     [from_form (Num 2) groceries] \<and>
   deleteTransaction False (Num 1) (run [Add salary, Add groceries] constructor) =
     run [Add salary, Add groceries] constructor"
proof -
  have s: "run [Add salary, Add groceries] constructor =
    \<lparr>transactions = [from_form (Num 1) salary, from_form (Num 2) groceries],
     nextId = js_add (Num 2) (Num 1)\<rparr>"
    by (simp add: addTransaction_def constructor_def round_double_numeral)
  have h1: "unique_ids (transactions (run [Add salary, Add groceries] constructor))"
    unfolding s by (simp add: from_form_def new_Transaction_def)
  have h2: "list_ex (\<lambda>t. strict_eq (t_id t) (Num 1))
      (transactions (run [Add salary, Add groceries] constructor))"
    unfolding s by (simp add: from_form_def new_Transaction_def)
  from delete_removes_exactly_one[OF h1 h2] have
    "deleteTransaction False (Num 1) (run [Add salary, Add groceries] constructor) =
     run [Add salary, Add groceries] constructor" by blast
  moreover have "transactions (deleteTransaction True (Num 1) (run [Add salary, Add groceries] constructor))
     = [from_form (Num 2) groceries]"
    unfolding s by (simp add: deleteTransaction_def from_form_def new_Transaction_def)
  ultimately show ?thesis using h1 h2 by blast
qed

text \<open>
  C4.  \<open>updateSummary\<close> returns as \<open>totalIncome\<close> the sum of the amounts of the records of
  category income, as \<open>totalExpenses\<close> the sum over those of category expense, each added up
  in JavaScript arithmetic from 0 in the order of the collection, and as \<open>netBalance\<close> their
  difference; on the empty collection all three are 0.  Where the amounts are whole numbers
  with a total of at most \<open>2\<^sup>5\<^sup>3\<close>, these are the exact sums and the exact difference.
\<close>

theorem summary_totals:
  "totalIncome (updateSummary s) =
     foldl js_add (Num 0) (map t_amount (only ''income'' (transactions s))) \<and>
   totalExpenses (updateSummary s) =
     foldl js_add (Num 0) (map t_amount (only ''expense'' (transactions s))) \<and>
   netBalance (updateSummary s) =
     js_sub (totalIncome (updateSummary s)) (totalExpenses (updateSummary s)) \<and>
   summarize [] = \<lparr>totalIncome = Num 0, totalExpenses = Num 0, netBalance = Num 0\<rparr> \<and>
   (whole ts \<and> exact_total ts \<le> 2 ^ 53 \<longrightarrow>
      summarize ts =
        \<lparr>totalIncome = Num (of_int (exact_total (only ''income'' ts))),
         totalExpenses = Num (of_int (exact_total (only ''expense'' ts))),
         netBalance = Num (of_int (exact_total (only ''income'' ts) - exact_total (only ''expense'' ts)))\<rparr>)"
proof -
  have "summarize [] = \<lparr>totalIncome = Num 0, totalExpenses = Num 0, netBalance = Num 0\<rparr>"
    by (simp add: summarize_def updateSummary_eq only_def js_sub_def)
  then show ?thesis
    using summarize_exact[of ts] by (simp add: updateSummary_eq)
qed

text \<open>
  C4 on the example of the specification: income 1000 and expense 200 give the totals 1000
  and 200 and the balance 800.
\<close>

theorem summary_totals_witness:
  "whole [from_form (Num 1) salary, from_form (Num 2) groceries] \<and>
   exact_total [from_form (Num 1) salary, from_form (Num 2) groceries] \<le> 2 ^ 53 \<and>
   summarize [from_form (Num 1) salary, from_form (Num 2) groceries] =
     \<lparr>totalIncome = Num 1000, totalExpenses = Num 200, netBalance = Num 800\<rparr>"
  using summary_totals[of _ "[from_form (Num 1) salary, from_form (Num 2) groceries]"]
  by (simp add: example_whole)

text \<open>
  C5 as stated fails on amounts that are not exactly representable, because the addition of
  doubles is not associative: with A one income of 0.1 and B two incomes of 0.2 and 0.3, the
  total income of \<open>A ++ B\<close> is 0.6000000000000001 and the total of A plus the total of B is
  0.6.
\<close>

theorem summarize_not_additive_counterexample:
  "totalIncome (summarize ([gift 1 ''0.1''] @ [gift 2 ''0.2'', gift 3 ''0.3''])) =
     Num (1351079888211149 / 2251799813685248) \<and>
   js_add (totalIncome (summarize [gift 1 ''0.1'']))
          (totalIncome (summarize [gift 2 ''0.2'', gift 3 ''0.3''])) =
     Num (5404319552844595 / 9007199254740992)"
  unfolding summarize_def updateSummary_eq
  by (simp add: only_def gift_amounts round_0_1_plus_0_2 round_0_3_plus_0_3 round_0_5
      round_0_1_plus_0_5 round_again_0_1 round_again_0_2)

text \<open>
  C5, as amended.  The totals of \<open>A ++ B\<close> are the running totals of A carried on through the
  records of B, one amount at a time, and the balance is their difference.  Whenever every
  addition and subtraction involved is exact (\<open>no_rounding\<close>: its operands are finite
  numbers, \<open>-0\<close> apart, and its mathematical result is a double, so that nothing rounds),
  each total of \<open>A ++ B\<close> is the total of A plus the total of B, the balance included; this
  is so in particular where all amounts are non-negative whole numbers with a total of at
  most \<open>2\<^sup>5\<^sup>3\<close>.
\<close>

theorem summarize_append:
  "totalIncome (summarize (xs @ ys)) =
     foldl js_add (totalIncome (summarize xs)) (map t_amount (only ''income'' ys)) \<and>
   totalExpenses (summarize (xs @ ys)) =
     foldl js_add (totalExpenses (summarize xs)) (map t_amount (only ''expense'' ys)) \<and>
   netBalance (summarize (xs @ ys)) =
     js_sub (totalIncome (summarize (xs @ ys))) (totalExpenses (summarize (xs @ ys))) \<and>
   (no_rounding xs ys \<longrightarrow>
      totalIncome (summarize (xs @ ys)) =
        js_add (totalIncome (summarize xs)) (totalIncome (summarize ys)) \<and>
      totalExpenses (summarize (xs @ ys)) =
        js_add (totalExpenses (summarize xs)) (totalExpenses (summarize ys)) \<and>
      netBalance (summarize (xs @ ys)) =
        js_add (netBalance (summarize xs)) (netBalance (summarize ys))) \<and>
   (whole (xs @ ys) \<and> exact_total (xs @ ys) \<le> 2 ^ 53 \<longrightarrow>
      totalIncome (summarize (xs @ ys)) =
        js_add (totalIncome (summarize xs)) (totalIncome (summarize ys)) \<and>
      totalExpenses (summarize (xs @ ys)) =
        js_add (totalExpenses (summarize xs)) (totalExpenses (summarize ys)) \<and>
      netBalance (summarize (xs @ ys)) =
        js_add (netBalance (summarize xs)) (netBalance (summarize ys)))"
  using summarize_append_whole[of xs ys] summarize_append_exact[of xs ys] by blast

text \<open>
  C5, as amended: on the amounts 0.5 and 0.25, which are no whole numbers and add without
  rounding, and on A the salary entry and B the groceries entry.
\<close>

theorem summarize_append_witness:
  "no_rounding [gift 1 ''0.5''] [gift 2 ''0.25''] \<and>
   totalIncome (summarize ([gift 1 ''0.5''] @ [gift 2 ''0.25''])) =
     js_add (totalIncome (summarize [gift 1 ''0.5''])) (totalIncome (summarize [gift 2 ''0.25''])) \<and>
   netBalance (summarize ([gift 1 ''0.5''] @ [gift 2 ''0.25''])) =
     js_add (netBalance (summarize [gift 1 ''0.5''])) (netBalance (summarize [gift 2 ''0.25''])) \<and>
   whole ([from_form (Num 1) salary] @ [from_form (Num 2) groceries]) \<and>
   exact_total ([from_form (Num 1) salary] @ [from_form (Num 2) groceries]) \<le> 2 ^ 53 \<and>
   netBalance (summarize ([from_form (Num 1) salary] @ [from_form (Num 2) groceries])) =
     js_add (netBalance (summarize [from_form (Num 1) salary]))
            (netBalance (summarize [from_form (Num 2) groceries])) \<and>
   totalIncome (summarize ([from_form (Num 1) salary] @ [from_form (Num 2) groceries])) =
     js_add (totalIncome (summarize [from_form (Num 1) salary]))
            (totalIncome (summarize [from_form (Num 2) groceries]))"
proof -
  have h: "whole ([from_form (Num 1) salary] @ [from_form (Num 2) groceries])"
    "exact_total ([from_form (Num 1) salary] @ [from_form (Num 2) groceries]) \<le> 2 ^ 53"
    by (simp_all add: example_whole)
  from summarize_append[of "[from_form (Num 1) salary]" "[from_form (Num 2) groceries]"]
    summarize_append[of "[gift 1 ''0.5'']" "[gift 2 ''0.25'']"] h no_rounding_example
  show ?thesis by blast
qed

text \<open>
  C6.  With the category filter \<open>all\<close>, an empty date filter and a sort option that is none
  of the four the comparator knows, \<open>renderTransactions\<close> shows the collection as it is, in
  its original order.
\<close>

theorem identity_projection:
  assumes "sortOption \<notin> set sort_options"
  shows "renderTransactions other (js ''all'') [] sortOption s = transactions s"
  by (simp add: renderTransactions_eq compareFn_other[OF assms] sort_by_zero passes_def)

text \<open>
  C6 on the store holding the salary and the groceries entry, with the sort option
  \<open>none\<close>.
\<close>

theorem identity_projection_witness:
  "js ''none'' \<notin> set sort_options \<and>
   renderTransactions (\<lambda>d. NaN) (js ''all'') [] (js ''none'') (run [Add salary, Add groceries] constructor)
     = transactions (run [Add salary, Add groceries] constructor)"
proof -
  have h: "js ''none'' \<notin> set sort_options" by (simp add: sort_options_def js_def)
  from identity_projection[OF h] h show ?thesis by blast
qed

text \<open>
  C7.  A record is among the rows shown exactly if it is in the collection, its category is
  the category filter or that filter is \<open>all\<close>, and its date is the date filter or that
  filter is empty; whatever the sort option, each such record is shown as often as the
  collection holds it.
\<close>

theorem filtering_is_conjunctive:
  "(t \<in> set (renderTransactions other categoryFilter dateFilter sortOption s) \<longleftrightarrow>
      t \<in> set (transactions s) \<and>
      (categoryFilter = js ''all'' \<or> t_category t = Some categoryFilter) \<and>
      (dateFilter = [] \<or> t_date t = dateFilter)) \<and>
   mset (renderTransactions other categoryFilter dateFilter sortOption s) =
     filter_mset (passes categoryFilter dateFilter) (mset (transactions s))"
proof -
  have "mset (renderTransactions other categoryFilter dateFilter sortOption s) =
     filter_mset (passes categoryFilter dateFilter) (mset (transactions s))"
    by (simp add: renderTransactions_eq mset_sort_by)
  moreover have "t \<in> set (renderTransactions other categoryFilter dateFilter sortOption s) \<longleftrightarrow>
      t \<in> set (transactions s) \<and>
      (categoryFilter = js ''all'' \<or> t_category t = Some categoryFilter) \<and>
      (dateFilter = [] \<or> t_date t = dateFilter)"
    by (simp add: renderTransactions_eq set_sort_by passes_def)
  ultimately show ?thesis by (rule conjI[rotated])
qed

text \<open>
  C7 on the example of the specification: filtered by \<open>income\<close> with no date filter, the
  salary entry is shown and the groceries entry is not.
\<close>

theorem filtering_is_conjunctive_witness:
  "from_form (Num 1) salary \<in> set (renderTransactions (\<lambda>d. NaN) (js ''income'') [] (js ''amount-desc'')
      \<lparr>transactions = [from_form (Num 1) salary, from_form (Num 2) groceries], nextId = Num 3\<rparr>) \<and>
   from_form (Num 2) groceries \<notin> set (renderTransactions (\<lambda>d. NaN) (js ''income'') [] (js ''amount-desc'')
      \<lparr>transactions = [from_form (Num 1) salary, from_form (Num 2) groceries], nextId = Num 3\<rparr>)"
  using filtering_is_conjunctive[of "from_form (Num 1) salary" "\<lambda>d. NaN" "js ''income''" "[]"
      "js ''amount-desc''"
      "\<lparr>transactions = [from_form (Num 1) salary, from_form (Num 2) groceries], nextId = Num 3\<rparr>"]
    filtering_is_conjunctive[of "from_form (Num 2) groceries" "\<lambda>d. NaN" "js ''income''" "[]"
      "js ''amount-desc''"
      "\<lparr>transactions = [from_form (Num 1) salary, from_form (Num 2) groceries], nextId = Num 3\<rparr>"]
  by (simp add: example_records income_not_expense income_not_all)

text \<open>
  C8 fails on the code.  For an empty amount field \<open>isNaN("")\<close> is false, because the empty
  string converts to 0, and \<open>parseFloat("")\<close> is NaN, which is not \<open><= 0\<close>: \<open>validateForm\<close>
  reports no error, and the record that \<open>addTransaction\<close> then builds has the amount NaN.
  The example of the specification, the amount \<open>-5\<close>, is rejected with the amount as its
  one failing field.  Today is 2026-11-03 in both, at midnight UTC.  The last part is the
  date check five and a half hours ahead of UTC, where local midnight of 2026-11-03 is
  18:30 UTC of the day before: the date of today is read as midnight UTC and rejected as
  lying in the future.
\<close>

theorem validateForm_accepts_empty_amount:
  "validateForm other (Num 1793664000000) (form '''' ''2024-01-01'' ''expense'' ''rent'' '''') =
     \<lparr>isValid = True, errors = [], invalid = []\<rparr> \<and>
   t_amount (from_form (Num 1) (form '''' ''2024-01-01'' ''expense'' ''rent'' '''')) = NaN \<and>
   validateForm other (Num 1793664000000) (form ''-5'' ''2024-01-01'' ''expense'' ''rent'' '''') =
     \<lparr>isValid = False,
      errors = [(''amount-error'', ''Please enter a positive numeric amount.'')],
      invalid = [''amount'']\<rparr> \<and>
   validateForm other (Num 1793644200000) (form ''200'' ''2026-11-03'' ''expense'' ''rent'' '''') =
     \<lparr>isValid = False,
      errors = [(''date-error'', ''Date cannot be in the future.'')],
      invalid = [''date'']\<rparr>"
proof -
  have e: "js '''' = []" "js ''rent'' \<noteq> []" "js ''expense'' \<noteq> []"
    "js ''2024-01-01'' \<noteq> []" "js ''2026-11-03'' \<noteq> []"
    by (simp_all add: js_def)
  have d: "Date_parse other (js ''2026-11-03'') = Num 1793664000000"
    by (simp add: Date_parse_def js_def isDigit_def digitsValue_def digitValue_def daysInMonth_def
        days_from_civil_def)
  have a: "isNaN (js ''200'') = False"
    by (simp add: isNaN_def StringToNumber_def trim_def parse_defs round_double_numeral)
  show ?thesis
    by (simp add: validateForm_def form_def Let_def e empty_amount minus_five date_2024_01_01
        js_gt_def js_le_def from_form_def new_Transaction_def d a amount_200)
qed

text \<open>
  C9.  \<open>update(k, newFields)\<close> with no record of id \<open>k\<close> in the collection returns the
  store as it was: same transactions, same \<open>nextId\<close>, no record created.  The model has no
  exceptional result on this path.
\<close>

theorem update_absent_is_noop:
  assumes "list_all (\<lambda>t. \<not> strict_eq (t_id t) k) (transactions s)"
  shows "updateTransaction k f s = s"
proof -
  have "findIndex (\<lambda>t. strict_eq (t_id t) k) (transactions s) = - 1"
    using assms by (simp add: findIndex_none list_all_iff)
  then show ?thesis by (simp add: updateTransaction_def)
qed

text \<open>
  C9 on the store holding only record 1, updating id 7.
\<close>

theorem update_absent_is_noop_witness:
  "list_all (\<lambda>t. \<not> strict_eq (t_id t) (Num 7)) (transactions (addTransaction salary constructor)) \<and>
   updateTransaction (Num 7) groceries (addTransaction salary constructor) =
     addTransaction salary constructor"
proof -
  have h: "list_all (\<lambda>t. \<not> strict_eq (t_id t) (Num 7))
      (transactions (addTransaction salary constructor))"
    by (simp add: addTransaction_def constructor_def from_form_def new_Transaction_def)
  from update_absent_is_noop[OF h] h show ?thesis by blast
qed

text \<open>
  C10.  In every store reached from the constructor by loads, adds, updates and deletes,
  every description is free of white space at both ends.  The record an add appends, the
  record an update puts in place and the records a successful load installs are those of the
  \<open>Transaction\<close> constructor: the amount is \<open>parseFloat\<close> of the amount supplied and the
  description is trimmed.  Each of the four operations leads to a reachable store again.
\<close>

theorem stored_records_normalised:
  assumes "reachable s"
  shows "list_all (\<lambda>t. trimmed (t_description t)) (transactions s) \<and>
    last (transactions (addTransaction f s)) =
      \<lparr>t_id = nextId s, t_amount = parseFloat (JSString (f_amount f)), t_date = f_date f,
       t_category = f_category f, t_subCategory = f_subCategory f,
       t_description = trim (f_description f)\<rparr> \<and>
    (- 1 < findIndex (\<lambda>t. strict_eq (t_id t) k) (transactions s) \<longrightarrow>
       transactions (updateTransaction k f s) !
         nat (findIndex (\<lambda>t. strict_eq (t_id t) k) (transactions s)) =
       \<lparr>t_id = k, t_amount = parseFloat (JSString (f_amount f)), t_date = f_date f,
        t_category = f_category f, t_subCategory = f_subCategory f,
        t_description = trim (f_description f)\<rparr>) \<and>
    (list_all (\<lambda>r. r_description r \<noteq> None) rows \<longrightarrow>
       transactions (loadInitialData (Rows rows) s) =
       map (\<lambda>r. \<lparr>t_id = r_id r, t_amount = parseFloat (r_amount r), t_date = r_date r,
                 t_category = r_category r, t_subCategory = r_subCategory r,
                 t_description = trim (the (r_description r))\<rparr>) rows) \<and>
    reachable (addTransaction f s) \<and> reachable (updateTransaction k f s) \<and>
    reachable (deleteTransaction confirmed k s) \<and> reachable (loadInitialData item s)"
proof -
  have inv: "list_all (\<lambda>t. trimmed (t_description t)) (transactions s)"
    using reachable_trimmed[OF assms] by (simp add: list_all_iff)
  have add: "last (transactions (addTransaction f s)) =
      \<lparr>t_id = nextId s, t_amount = parseFloat (JSString (f_amount f)), t_date = f_date f,
       t_category = f_category f, t_subCategory = f_subCategory f,
       t_description = trim (f_description f)\<rparr>"
    by (simp add: addTransaction_def from_form_def new_Transaction_def)
  have upd: "transactions (updateTransaction k f s) !
         nat (findIndex (\<lambda>t. strict_eq (t_id t) k) (transactions s)) =
       \<lparr>t_id = k, t_amount = parseFloat (JSString (f_amount f)), t_date = f_date f,
        t_category = f_category f, t_subCategory = f_subCategory f,
        t_description = trim (f_description f)\<rparr>"
    if "- 1 < findIndex (\<lambda>t. strict_eq (t_id t) k) (transactions s)"
    using that findIndex_found[OF that]
    by (simp add: updateTransaction_def from_form_def new_Transaction_def)
  have ld: "transactions (loadInitialData (Rows rows) s) =
       map (\<lambda>r. \<lparr>t_id = r_id r, t_amount = parseFloat (r_amount r), t_date = r_date r,
                 t_category = r_category r, t_subCategory = r_subCategory r,
                 t_description = trim (the (r_description r))\<rparr>) rows"
    if "list_all (\<lambda>r. r_description r \<noteq> None) rows"
    using that by (simp add: loadInitialData_def Let_def rehydrate_def new_Transaction_def)
  have r: "reachable (addTransaction f s)" "reachable (updateTransaction k f s)"
    "reachable (deleteTransaction confirmed k s)" "reachable (loadInitialData item s)"
    using reachable.step[OF assms, of "Add f"] reachable.step[OF assms, of "Update k f"]
      reachable.step[OF assms, of "Delete k confirmed"] reachable.load[OF assms, of item]
    by simp_all
  from inv add upd ld r show ?thesis by blast
qed

text \<open>
  C10 after adding the salary entry to the fresh store: its description
  \<open>" January pay "\<close> is stored trimmed and its amount as the number 1000.  Updating
  record 1 there with the groceries entry, and loading one stored row there, install records
  of the constructor.
\<close>

theorem stored_records_normalised_witness:
  "reachable (addTransaction salary constructor) \<and>
   list_all (\<lambda>t. trimmed (t_description t)) (transactions (addTransaction salary constructor)) \<and>
   map t_description (transactions (addTransaction salary constructor)) = [js ''January pay''] \<and>
   map t_amount (transactions (addTransaction salary constructor)) = [Num 1000] \<and>
   - 1 < findIndex (\<lambda>t. strict_eq (t_id t) (Num 1)) (transactions (addTransaction salary constructor)) \<and>
   transactions (updateTransaction (Num 1) groceries (addTransaction salary constructor)) !
     nat (findIndex (\<lambda>t. strict_eq (t_id t) (Num 1)) (transactions (addTransaction salary constructor))) =
     \<lparr>t_id = Num 1, t_amount = parseFloat (JSString (f_amount groceries)),
      t_date = f_date groceries, t_category = f_category groceries,
      t_subCategory = f_subCategory groceries, t_description = trim (f_description groceries)\<rparr> \<and>
   list_all (\<lambda>r. r_description r \<noteq> None)
     [\<lparr>r_id = Num 5, r_amount = JSNumber (Num 200), r_date = js ''2024-01-02'',
       r_category = Some (js ''expense''), r_subCategory = js ''groceries'',
       r_description = Some (js '' food '')\<rparr>] \<and>
   map t_description (transactions (loadInitialData
     (Rows [\<lparr>r_id = Num 5, r_amount = JSNumber (Num 200), r_date = js ''2024-01-02'',
             r_category = Some (js ''expense''), r_subCategory = js ''groceries'',
             r_description = Some (js '' food '')\<rparr>])
     (addTransaction salary constructor))) = [trim (js '' food '')]"
proof -
  let ?s = "addTransaction salary constructor"
  let ?row = "\<lparr>r_id = Num 5, r_amount = JSNumber (Num 200), r_date = js ''2024-01-02'',
       r_category = Some (js ''expense''), r_subCategory = js ''groceries'',
       r_description = Some (js '' food '')\<rparr>"
  have h: "reachable ?s"
    using reachable.step[OF reachable.start, of "Add salary"] by simp
  have found: "- 1 < findIndex (\<lambda>t. strict_eq (t_id t) (Num 1)) (transactions ?s)"
    by (simp add: addTransaction_def constructor_def example_records)
  have strings: "list_all (\<lambda>r. r_description r \<noteq> None) [?row]"
    by simp
  have stored: "map t_description (transactions ?s) = [js ''January pay'']"
    "map t_amount (transactions ?s) = [Num 1000]"
    by (simp_all add: addTransaction_def constructor_def example_records trim_example)
  note inst = stored_records_normalised[where f = groceries and k = "Num 1" and rows = "[?row]", OF h]
  from inst found strings
  have "transactions (loadInitialData (Rows [?row]) ?s) =
      map (\<lambda>r. \<lparr>t_id = r_id r, t_amount = parseFloat (r_amount r), t_date = r_date r,
                t_category = r_category r, t_subCategory = r_subCategory r,
                t_description = trim (the (r_description r))\<rparr>) [?row]"
    by blast
  then have loaded: "map t_description (transactions (loadInitialData (Rows [?row]) ?s)) =
      [trim (js '' food '')]"
    by simp
  from inst h found strings stored loaded show ?thesis by blast
qed

end
